theory Spec2Isabelle
  imports Complex_Main
begin

section \<open>Data model of parking\_detector.py\<close>

text \<open>
  Pixel coordinates of slot corners and of mouse clicks are Python integers; a parking
  space is a list of points (four of them once it has been created by the editor).
  A detection is one row \<open>[x1, y1, x2, y2, conf, cls]\<close> of the detector's float array.
  Timestamps (\<open>time.time()\<close>), overlap ratios and thresholds are Python floats; they are
  modelled by exact reals, so rounding is not part of the model.
\<close>

type_synonym point = "int \<times> int"
type_synonym space = "point list"
type_synonym detection = "real \<times> real \<times> real \<times> real \<times> real \<times> real"

text \<open>Python's \<open>int(cls)\<close> on a float truncates towards zero.\<close>

definition py_int :: "real \<Rightarrow> int" where
  "py_int r = (if 0 \<le> r then \<lfloor>r\<rfloor> else \<lceil>r\<rceil>)"

text \<open>The five state strings returned by \<open>check_parking_spaces\<close>.\<close>

datatype slot_state = Occupied | Free | Uncertain | Uncertain_occupied | Frequent_detection

text \<open>The values stored in the three tracking dictionaries.\<close>

record uncertainty_entry =
  start_time :: real
  last_area :: real
  object_class :: "int option"

record free_entry =
  free_start_time :: real
  total_free_time :: real

record occupied_entry =
  occupied_start_time :: real
  total_occupied_time :: real

text \<open>
  The module-level mutable state: the editor's mode flags and lists, and the dictionaries
  keyed by the slot index. \<open>editing_space_index\<close> uses the sentinel \<open>-1\<close>.
\<close>

record globals =
  debug_mode :: bool
  edit_mode :: bool
  delete_mode :: bool
  tracked_objects :: "int list"
  parking_spaces :: "space list"
  current_parking_space :: space
  editing_space_index :: int
  uncertainty_tracking :: "nat \<rightharpoonup> uncertainty_entry"
  free_time_tracking :: "nat \<rightharpoonup> free_entry"
  occupied_time_tracking :: "nat \<rightharpoonup> occupied_entry"
  detection_history :: "nat \<rightharpoonup> real list"

text \<open>
  The configuration values read from the settings file and passed to
  \<open>check_parking_spaces\<close> at its call site (\<open>occupancy_threshold\<close> is the argument
  named \<open>threshold\<close> there).
\<close>

record settings =
  universal_detection :: bool
  occupancy_threshold :: real
  uncertainty_threshold :: real
  uncertainty_time_threshold :: real
  frequent_detection_threshold :: int
  frequent_detection_window :: real

text \<open>
  The two OpenCV routines the classification calls are not part of the repository; they
  are parameters of the model. \<open>intersectConvexConvex\<close> returns the intersection area, or
  \<open>None\<close> when the call raises (the source wraps it in \<open>try\<close>/\<open>except\<close>).
\<close>

record cv2 =
  contourArea :: "space \<Rightarrow> real"
  intersectConvexConvex :: "space \<Rightarrow> (real \<times> real) list \<Rightarrow> real option"

datatype event = EVENT_LBUTTONDOWN | EVENT_OTHER

datatype error = IndexError | OverflowError

section \<open>Flicker filter: check\_frequent\_detections\<close>

definition check_frequent_detections ::
  "nat \<Rightarrow> real \<Rightarrow> int \<Rightarrow> real \<Rightarrow> globals \<Rightarrow> bool \<times> globals" where
  "check_frequent_detections space_idx current_time threshold window g =
     (let history = (case detection_history g space_idx of None \<Rightarrow> [] | Some h \<Rightarrow> h);
          appended = history @ [current_time];
          cutoff_time = current_time - window;
          kept = filter (\<lambda>t. t > cutoff_time) appended
      in (int (length kept) \<ge> threshold,
          g\<lparr>detection_history := (detection_history g)(space_idx \<mapsto> kept)\<rparr>))"

section \<open>Geometry: the best overlap of a slot over the detections\<close>

text \<open>
  The inner loop of \<open>check_parking_spaces\<close> over the detections, with the accumulator
  \<open>(max_overlap_ratio, best_object_class)\<close>. A detection is skipped when universal
  detection is off and its class is not tracked, and when the intersection raises.
\<close>

fun best_overlap ::
  "cv2 \<Rightarrow> bool \<Rightarrow> int list \<Rightarrow> space \<Rightarrow> real \<Rightarrow> detection list
     \<Rightarrow> real \<times> int option \<Rightarrow> real \<times> int option" where
  "best_overlap lib universal tracked pts space_area [] acc = acc"
| "best_overlap lib universal tracked pts space_area ((x1, y1, x2, y2, conf, cls) # dets)
       (max_overlap_ratio, best_object_class) =
     (if \<not> universal \<and> py_int cls \<notin> set tracked
      then best_overlap lib universal tracked pts space_area dets
             (max_overlap_ratio, best_object_class)
      else
        (case intersectConvexConvex lib pts [(x1, y1), (x2, y1), (x2, y2), (x1, y2)] of
           None \<Rightarrow> best_overlap lib universal tracked pts space_area dets
                     (max_overlap_ratio, best_object_class)
         | Some overlap \<Rightarrow>
             (let overlap_ratio = (if space_area > 0 then overlap / space_area else 0)
              in if overlap_ratio > max_overlap_ratio
                 then best_overlap lib universal tracked pts space_area dets
                        (overlap_ratio, Some (py_int cls))
                 else best_overlap lib universal tracked pts space_area dets
                        (max_overlap_ratio, best_object_class))))"

text \<open>The first half of the outer loop's body: area of the slot, then the inner loop.\<close>

definition space_overlap ::
  "cv2 \<Rightarrow> bool \<Rightarrow> int list \<Rightarrow> detection list \<Rightarrow> space \<Rightarrow> real \<times> int option" where
  "space_overlap lib universal tracked detections space =
     best_overlap lib universal tracked space (contourArea lib space) detections (0, None)"


section \<open>Slot state machine: the classification part of check\_parking\_spaces\<close>

text \<open>
  The second half of the outer loop's body: the three-way branch on
  \<open>max_overlap_ratio\<close>, with the dictionary updates of each branch.
\<close>

definition classify_space ::
  "settings \<Rightarrow> real \<Rightarrow> nat \<Rightarrow> real \<times> int option \<Rightarrow> globals \<Rightarrow> slot_state \<times> globals" where
  "classify_space cfg current_time space_idx best g =
     (case best of (max_overlap_ratio, best_object_class) \<Rightarrow>
      if max_overlap_ratio \<ge> occupancy_threshold cfg then
        (Occupied,
         g\<lparr>uncertainty_tracking := (uncertainty_tracking g)(space_idx := None),
           free_time_tracking := (free_time_tracking g)(space_idx := None),
           detection_history := (detection_history g)(space_idx := None),
           occupied_time_tracking :=
             (case occupied_time_tracking g space_idx of
                None \<Rightarrow> (occupied_time_tracking g)(space_idx \<mapsto>
                  \<lparr>occupied_start_time = current_time, total_occupied_time = 0\<rparr>)
              | Some e \<Rightarrow> (occupied_time_tracking g)(space_idx \<mapsto>
                  \<lparr>occupied_start_time = current_time,
                   total_occupied_time =
                     total_occupied_time e + (current_time - occupied_start_time e)\<rparr>))\<rparr>)
      else if max_overlap_ratio \<ge> uncertainty_threshold cfg then
        (case check_frequent_detections space_idx current_time
                (frequent_detection_threshold cfg) (frequent_detection_window cfg) g of
           (has_frequent_detections, g1) \<Rightarrow>
             (case (case uncertainty_tracking g1 space_idx of
                      None \<Rightarrow>
                        (Uncertain,
                         g1\<lparr>uncertainty_tracking := (uncertainty_tracking g1)(space_idx \<mapsto>
                              \<lparr>start_time = current_time, last_area = max_overlap_ratio,
                               object_class = best_object_class\<rparr>)\<rparr>)
                    | Some e \<Rightarrow>
                        (if current_time - start_time e \<ge> uncertainty_time_threshold cfg
                         then Uncertain_occupied else Uncertain,
                         g1\<lparr>uncertainty_tracking := (uncertainty_tracking g1)(space_idx \<mapsto>
                              e\<lparr>last_area := max_overlap_ratio,
                                object_class := best_object_class\<rparr>)\<rparr>)) of
                (state, g2) \<Rightarrow>
                  (if has_frequent_detections then Frequent_detection else state,
                   g2\<lparr>free_time_tracking := (free_time_tracking g2)(space_idx := None),
                      occupied_time_tracking :=
                        (occupied_time_tracking g2)(space_idx := None)\<rparr>)))
      else
        (Free,
         g\<lparr>uncertainty_tracking := (uncertainty_tracking g)(space_idx := None),
           occupied_time_tracking := (occupied_time_tracking g)(space_idx := None),
           detection_history := (detection_history g)(space_idx := None),
           free_time_tracking :=
             (case free_time_tracking g space_idx of
                None \<Rightarrow> (free_time_tracking g)(space_idx \<mapsto>
                  \<lparr>free_start_time = current_time, total_free_time = 0\<rparr>)
              | Some e \<Rightarrow> (free_time_tracking g)(space_idx \<mapsto>
                  \<lparr>free_start_time = current_time,
                   total_free_time =
                     total_free_time e + (current_time - free_start_time e)\<rparr>))\<rparr>))"

text \<open>
  The outer loop \<open>for space_idx, space in enumerate(parking_spaces)\<close>, started at
  index \<open>space_idx\<close>, and the function itself. \<open>current_time\<close> is the single reading of
  the clock taken at the start of the call. The slots are taken as converted: the points
  that mouse clicks produce convert to themselves.
\<close>

fun check_spaces_from ::
  "cv2 \<Rightarrow> settings \<Rightarrow> real \<Rightarrow> detection list \<Rightarrow> int list \<Rightarrow> nat \<Rightarrow> space list
     \<Rightarrow> globals \<Rightarrow> slot_state list \<times> globals" where
  "check_spaces_from lib cfg current_time detections tracked space_idx [] g = ([], g)"
| "check_spaces_from lib cfg current_time detections tracked space_idx (space # rest) g =
     (case classify_space cfg current_time space_idx
             (space_overlap lib (universal_detection cfg) tracked detections space) g of
        (state, g1) \<Rightarrow>
          (case check_spaces_from lib cfg current_time detections tracked
                  (Suc space_idx) rest g1 of
             (states, g2) \<Rightarrow> (state # states, g2)))"

definition check_parking_spaces ::
  "cv2 \<Rightarrow> real \<Rightarrow> space list \<Rightarrow> detection list \<Rightarrow> int list \<Rightarrow> settings
     \<Rightarrow> globals \<Rightarrow> slot_state list \<times> globals" where
  "check_parking_spaces lib current_time spaces detections tracked cfg g =
     check_spaces_from lib cfg current_time detections tracked 0 spaces g"

text \<open>
  Consecutive iterations of the main loop outside debug mode, each with its clock reading
  and its detections, over an unchanged slot list: the states of every frame and the
  final tracking state.
\<close>

fun run_frames ::
  "cv2 \<Rightarrow> space list \<Rightarrow> int list \<Rightarrow> settings \<Rightarrow> (real \<times> detection list) list
     \<Rightarrow> globals \<Rightarrow> slot_state list list \<times> globals" where
  "run_frames lib spaces tracked cfg [] g = ([], g)"
| "run_frames lib spaces tracked cfg ((current_time, detections) # frames) g =
     (case check_parking_spaces lib current_time spaces detections tracked cfg g of
        (states, g1) \<Rightarrow>
          (case run_frames lib spaces tracked cfg frames g1 of
             (rest, g2) \<Rightarrow> (states # rest, g2)))"

section \<open>Region editor: point\_in\_polygon and draw\_parking\_space\<close>

text \<open>
  One iteration of the ray-casting loop for the edge from \<open>(p1x, p1y)\<close> to
  \<open>(p2x, p2y)\<close>. Inside the nested tests \<open>y > min p1y p2y\<close> and \<open>y \<le> max p1y p2y\<close>
  the two ordinates differ, so \<open>xinters\<close> is always the value assigned in this very
  iteration; \<open>/\<close> is Python's true division.
\<close>

definition edge_crossed :: "int \<Rightarrow> int \<Rightarrow> point \<Rightarrow> point \<Rightarrow> bool" where
  "edge_crossed x y p1 p2 =
     (case p1 of (p1x, p1y) \<Rightarrow> case p2 of (p2x, p2y) \<Rightarrow>
        y > min p1y p2y \<and> y \<le> max p1y p2y \<and> x \<le> max p1x p2x \<and>
        (p1x = p2x \<or>
         real_of_int x \<le>
           real_of_int ((y - p1y) * (p2x - p1x)) / real_of_int (p2y - p1y) + real_of_int p1x))"

fun ray_loop :: "int \<Rightarrow> int \<Rightarrow> point \<Rightarrow> point list \<Rightarrow> bool \<Rightarrow> bool" where
  "ray_loop x y p1 [] inside = inside"
| "ray_loop x y p1 (p2 # ps) inside =
     ray_loop x y p2 ps (if edge_crossed x y p1 p2 then \<not> inside else inside)"

text \<open>
  \<open>polygon[0]\<close> raises on an empty polygon; the points visited by \<open>polygon[i % n]\<close> for
  \<open>i = 1, \<dots>, n\<close> are the tail of the polygon followed by its first point.
\<close>

definition point_in_polygon :: "point \<Rightarrow> space \<Rightarrow> error + bool" where
  "point_in_polygon p polygon =
     (case p of (x, y) \<Rightarrow>
        (case polygon of
           [] \<Rightarrow> Inl IndexError
         | p0 # rest \<Rightarrow> Inr (ray_loop x y p0 (rest @ [p0]) False)))"

text \<open>The test \<open>len(space) == 4 and point_in_polygon((x, y), space)\<close> of both scans.\<close>

definition space_hit :: "point \<Rightarrow> space \<Rightarrow> bool" where
  "space_hit p space = (length space = 4 \<and> point_in_polygon p space = Inr True)"

text \<open>
  The scan \<open>for i, space in enumerate(parking_spaces)\<close> that stops at the first hit,
  shared by delete and edit mode: the index it stops at.
\<close>

fun first_hit :: "point \<Rightarrow> nat \<Rightarrow> space list \<Rightarrow> nat option" where
  "first_hit p i [] = None"
| "first_hit p i (space # rest) =
     (if space_hit p space then Some i else first_hit p (Suc i) rest)"

text \<open>\<open>del xs[i]\<close> for an index in range.\<close>

definition del_at :: "nat \<Rightarrow> 'a list \<Rightarrow> 'a list" where
  "del_at i xs = take i xs @ drop (Suc i) xs"

text \<open>\<open>xs[i] = v\<close> with Python's negative indices and its IndexError.\<close>

definition py_setitem :: "'a list \<Rightarrow> int \<Rightarrow> 'a \<Rightarrow> error + 'a list" where
  "py_setitem xs i v =
     (if 0 \<le> i \<and> i < int (length xs) then Inr (xs[nat i := v])
      else if i < 0 \<and> - int (length xs) \<le> i then Inr (xs[nat (int (length xs) + i) := v])
      else Inl IndexError)"

text \<open>
  The two statements shared by edit and create mode: append the click while fewer than
  four points are pending.
\<close>

definition append_click :: "space \<Rightarrow> int \<Rightarrow> int \<Rightarrow> space" where
  "append_click current x y = (if length current < 4 then current @ [(x, y)] else current)"

definition draw_parking_space ::
  "event \<Rightarrow> int \<Rightarrow> int \<Rightarrow> detection list \<Rightarrow> globals \<Rightarrow> error + globals" where
  "draw_parking_space ev x y detections g =
     (if debug_mode g then
        (if ev = EVENT_LBUTTONDOWN then
           Inr (g\<lparr>tracked_objects := tracked_objects g @
                  map (\<lambda>(x1, y1, x2, y2, conf, cls). py_int cls)
                    (filter (\<lambda>(x1, y1, x2, y2, conf, cls).
                       x1 \<le> real_of_int x \<and> real_of_int x \<le> x2 \<and>
                       y1 \<le> real_of_int y \<and> real_of_int y \<le> y2) detections)\<rparr>)
         else Inr g)
      else if delete_mode g then
        (if ev = EVENT_LBUTTONDOWN then
           (case first_hit (x, y) 0 (parking_spaces g) of
              None \<Rightarrow> Inr g
            | Some i \<Rightarrow> Inr (g\<lparr>parking_spaces := del_at i (parking_spaces g)\<rparr>))
         else Inr g)
      else if edit_mode g then
        (if ev = EVENT_LBUTTONDOWN then
           (if editing_space_index g = - 1 then
              (case first_hit (x, y) 0 (parking_spaces g) of
                 None \<Rightarrow> Inr g
               | Some i \<Rightarrow>
                   Inr (g\<lparr>editing_space_index := int i,
                          current_parking_space := parking_spaces g ! i\<rparr>))
            else
              (let current = append_click (current_parking_space g) x y
               in if length current = 4 then
                    (case py_setitem (parking_spaces g) (editing_space_index g) current of
                       Inl e \<Rightarrow> Inl e
                     | Inr spaces \<Rightarrow>
                         Inr (g\<lparr>parking_spaces := spaces,
                                current_parking_space := [],
                                editing_space_index := - 1\<rparr>))
                  else Inr (g\<lparr>current_parking_space := current\<rparr>)))
         else Inr g)
      else
        (if ev = EVENT_LBUTTONDOWN then
           (let current = append_click (current_parking_space g) x y
            in if length current = 4 then
                 Inr (g\<lparr>parking_spaces := parking_spaces g @ [current],
                        current_parking_space := []\<rparr>)
               else Inr (g\<lparr>current_parking_space := current\<rparr>))
         else Inr g))"

text \<open>A sequence of mouse events, stopping at the first exception.\<close>

fun draw_events :: "(event \<times> int \<times> int) list \<Rightarrow> detection list \<Rightarrow> globals \<Rightarrow> error + globals" where
  "draw_events [] detections g = Inr g"
| "draw_events ((ev, x, y) # evs) detections g =
     (case draw_parking_space ev x y detections g of
        Inl e \<Rightarrow> Inl e
      | Inr g1 \<Rightarrow> draw_events evs detections g1)"

section \<open>Initial state and default configuration\<close>

text \<open>
  The values the module assigns to its globals when it is loaded, and the
  \<open>default_config\<close> of \<open>load_config\<close>.
\<close>

definition initial_globals :: globals where
  "initial_globals =
     \<lparr>debug_mode = False, edit_mode = False, delete_mode = False,
      tracked_objects = [2, 67], parking_spaces = [], current_parking_space = [],
      editing_space_index = - 1,
      uncertainty_tracking = Map.empty, free_time_tracking = Map.empty,
      occupied_time_tracking = Map.empty, detection_history = Map.empty\<rparr>"

definition default_settings :: settings where
  "default_settings =
     \<lparr>universal_detection = True, occupancy_threshold = 6/10, uncertainty_threshold = 3/10,
      uncertainty_time_threshold = 3, frequent_detection_threshold = 10,
      frequent_detection_window = 10\<rparr>"


section \<open>Auxiliary notions for the proofs\<close>

subsection \<open>The records of one slot index\<close>

text \<open>
  The classification of slot \<open>i\<close> reads and writes the four dictionaries at key \<open>i\<close>
  only. \<open>records_of\<close> projects the state onto one key; \<open>slot_step\<close> is the effect of
  one frame on that projection (proved equal to \<open>classify_space\<close> below), and \<open>slot_run\<close>
  iterates it over the clock readings and best overlaps of consecutive frames.
\<close>

type_synonym slot_records =
  "uncertainty_entry option \<times> free_entry option \<times> occupied_entry option \<times> real list option"

definition records_of :: "globals \<Rightarrow> nat \<Rightarrow> slot_records" where
  "records_of g i =
     (uncertainty_tracking g i, free_time_tracking g i, occupied_time_tracking g i,
      detection_history g i)"

definition kept_history :: "settings \<Rightarrow> real \<Rightarrow> real list option \<Rightarrow> real list" where
  "kept_history cfg t h =
     filter (\<lambda>s. s > t - frequent_detection_window cfg)
       ((case h of None \<Rightarrow> [] | Some l \<Rightarrow> l) @ [t])"

definition slot_step ::
  "settings \<Rightarrow> real \<Rightarrow> real \<times> int option \<Rightarrow> slot_records \<Rightarrow> slot_state \<times> slot_records" where
  "slot_step cfg t best v =
     (case best of (r, c) \<Rightarrow> case v of (u, f, oc, h) \<Rightarrow>
        if r \<ge> occupancy_threshold cfg then
          (Occupied,
           (None, None,
            Some (case oc of
                    None \<Rightarrow> \<lparr>occupied_start_time = t, total_occupied_time = 0\<rparr>
                  | Some e \<Rightarrow> \<lparr>occupied_start_time = t,
                       total_occupied_time = total_occupied_time e + (t - occupied_start_time e)\<rparr>),
            None))
        else if r \<ge> uncertainty_threshold cfg then
          (if int (length (kept_history cfg t h)) \<ge> frequent_detection_threshold cfg
           then Frequent_detection
           else (case u of
                   None \<Rightarrow> Uncertain
                 | Some e \<Rightarrow> if t - start_time e \<ge> uncertainty_time_threshold cfg
                            then Uncertain_occupied else Uncertain),
           (Some (case u of
                    None \<Rightarrow> \<lparr>start_time = t, last_area = r, object_class = c\<rparr>
                  | Some e \<Rightarrow> e\<lparr>last_area := r, object_class := c\<rparr>),
            None, None, Some (kept_history cfg t h)))
        else
          (Free,
           (None,
            Some (case f of
                    None \<Rightarrow> \<lparr>free_start_time = t, total_free_time = 0\<rparr>
                  | Some e \<Rightarrow> \<lparr>free_start_time = t,
                       total_free_time = total_free_time e + (t - free_start_time e)\<rparr>),
            None, None)))"

fun slot_run ::
  "settings \<Rightarrow> (real \<times> (real \<times> int option)) list \<Rightarrow> slot_records
     \<Rightarrow> slot_state list \<times> slot_records" where
  "slot_run cfg [] v = ([], v)"
| "slot_run cfg ((t, best) # rs) v =
     (case slot_step cfg t best v of
        (st, v1) \<Rightarrow> (case slot_run cfg rs v1 of (sts, v2) \<Rightarrow> (st # sts, v2)))"

definition in_band :: "settings \<Rightarrow> real \<Rightarrow> bool" where
  "in_band cfg r = (uncertainty_threshold cfg \<le> r \<and> r < occupancy_threshold cfg)"

subsection \<open>One detection box against one slot\<close>

text \<open>
  The part of the inner loop's body that decides whether a box takes part in the
  comparison and with which ratio: \<open>None\<close> when the class filter skips it or the
  intersection raises. \<open>box_class\<close> is \<open>int(cls)\<close>.
\<close>

definition box_ratio ::
  "cv2 \<Rightarrow> bool \<Rightarrow> int list \<Rightarrow> space \<Rightarrow> real \<Rightarrow> detection \<Rightarrow> real option" where
  "box_ratio lib universal tracked pts space_area det =
     (case det of (x1, y1, x2, y2, conf, cls) \<Rightarrow>
        if \<not> universal \<and> py_int cls \<notin> set tracked then None
        else (case intersectConvexConvex lib pts [(x1, y1), (x2, y1), (x2, y2), (x1, y2)] of
                None \<Rightarrow> None
              | Some overlap \<Rightarrow> Some (if space_area > 0 then overlap / space_area else 0)))"

definition box_class :: "detection \<Rightarrow> int" where
  "box_class det = (case det of (x1, y1, x2, y2, conf, cls) \<Rightarrow> py_int cls)"

subsection \<open>An executable stand-in for the OpenCV routines\<close>

text \<open>
  Used only to run the model on concrete frames. \<open>polygon_area\<close> is the shoelace
  formula, which is what \<open>contourArea\<close> computes; \<open>bbox_overlap\<close> intersects the bounding
  boxes of its arguments and never raises, which is the intersection area whenever the slot
  is an axis-aligned rectangle or a single point.
\<close>

fun cross_sum :: "point \<Rightarrow> point list \<Rightarrow> int" where
  "cross_sum p [] = 0"
| "cross_sum (ax, ay) ((bx, by) # ps) = ax * by - bx * ay + cross_sum (bx, by) ps"

definition polygon_area :: "space \<Rightarrow> real" where
  "polygon_area pts =
     (case pts of [] \<Rightarrow> 0 | p # rest \<Rightarrow> \<bar>real_of_int (cross_sum p (rest @ [p]))\<bar> / 2)"

fun least :: "real list \<Rightarrow> real" where
  "least [] = 0"
| "least [a] = a"
| "least (a # b # xs) = min a (least (b # xs))"

fun greatest :: "real list \<Rightarrow> real" where
  "greatest [] = 0"
| "greatest [a] = a"
| "greatest (a # b # xs) = max a (greatest (b # xs))"

definition bbox_overlap :: "space \<Rightarrow> (real \<times> real) list \<Rightarrow> real option" where
  "bbox_overlap pts rect =
     (let px = map (real_of_int \<circ> fst) pts; py = map (real_of_int \<circ> snd) pts;
          rx = map fst rect; ry = map snd rect
      in Some (max 0 (min (greatest px) (greatest rx) - max (least px) (least rx)) *
               max 0 (min (greatest py) (greatest ry) - max (least py) (least ry))))"

definition example_cv2 :: cv2 where
  "example_cv2 = \<lparr>contourArea = polygon_area, intersectConvexConvex = bbox_overlap\<rparr>"

definition square :: space where
  "square = [(0, 0), (10, 0), (10, 10), (0, 10)]"

subsection \<open>Concrete states used in the examples\<close>

text \<open>
  Three disjoint axis-aligned slots; the state after the middle one has been deleted
  while an occupied-time record was keyed to index 1; an edit-mode state with one slot.
\<close>

definition three_slots :: "space list" where
  "three_slots =
     [ [(0, 0), (10, 0), (10, 10), (0, 10)],
      [(20, 0), (30, 0), (30, 10), (20, 10)],
      [(40, 0), (50, 0), (50, 10), (40, 10)] ]"

definition after_delete :: globals where
  "after_delete =
     initial_globals\<lparr>delete_mode := True,
        parking_spaces := [ [(0, 0), (10, 0), (10, 10), (0, 10)],
                           [(40, 0), (50, 0), (50, 10), (40, 10)] ],
        occupied_time_tracking :=
          [1 \<mapsto> \<lparr>occupied_start_time = 100, total_occupied_time = 40\<rparr>]\<rparr>"

definition edit_start :: globals where
  "edit_start = initial_globals\<lparr>edit_mode := True, parking_spaces := [square]\<rparr>"

definition frame_boxes :: "detection list" where
  "frame_boxes = [(0, 0, 10, 10, 9/10, 2), (20, 0, 24, 10, 8/10, 2)]"

definition dwelling :: globals where
  "dwelling =
     initial_globals\<lparr>uncertainty_tracking :=
       [0 \<mapsto> \<lparr>start_time = 97, last_area = 35/100, object_class = Some 2\<rparr>]\<rparr>"

definition box01 :: "detection list" where
  "box01 = [(0, 0, 1, 10, 9/10, 2)]"

definition box04 :: "detection list" where
  "box04 = [(0, 0, 4, 10, 9/10, 2)]"

definition box10 :: "detection list" where
  "box10 = [(-5, -5, 20, 20, 9/10, 2)]"

definition occupied_frames_example :: "(real \<times> detection list) list" where
  "occupied_frames_example = [(100, box10), (101, box10), (103, box10)]"

definition free_frames_example :: "(real \<times> detection list) list" where
  "free_frames_example = [(100, []), (101, []), (103, [])]"

definition ten_frames :: "(real \<times> detection list) list" where
  "ten_frames =
     [(100, box04), (101, box04), (102, box04), (103, box04), (104, box04),
      (105, box04), (106, box04), (107, box04), (108, box04), (109, box04)]"



definition tie_boxes :: "detection list" where
  "tie_boxes = [(0, 0, 5, 10, 9/10, 2), (5, 0, 10, 10, 8/10, 7)]"

definition far_box :: "detection list" where
  "far_box = [(20, 20, 30, 30, 9/10, 2)]"

text \<open>
  Two slots, a frame that finds both occupied at clock reading 43, the state after that
  frame, and a slot created later with the frames that find it occupied.
\<close>

definition two_slots :: "space list" where
  "two_slots = [square, [(20, 0), (30, 0), (30, 10), (20, 10)] ]"

definition both_boxes :: "detection list" where
  "both_boxes = [(0, 0, 10, 10, 9/10, 2), (20, 0, 30, 10, 9/10, 2)]"

definition new_slot :: space where
  "new_slot = [(40, 0), (50, 0), (50, 10), (40, 10)]"

definition new_slot_frames :: "(real \<times> detection list) list" where
  "new_slot_frames =
     [(100, [(40, 0, 50, 10, 9/10, 2)]), (101, [(40, 0, 50, 10, 9/10, 2)]),
      (103, [(40, 0, 50, 10, 9/10, 2)])]"

definition first_frame_done :: globals where
  "first_frame_done =
     snd (check_parking_spaces example_cv2 43 two_slots both_boxes [2, 67] default_settings
            (initial_globals\<lparr>parking_spaces := two_slots\<rparr>))"






section \<open>Notions the claims are stated with\<close>

text \<open>
  At most one of the three tracking dictionaries has an entry for index \<open>i\<close>.
\<close>

definition exclusive_records :: "globals \<Rightarrow> nat \<Rightarrow> bool" where
  "exclusive_records g i =
     (\<not> (uncertainty_tracking g i \<noteq> None \<and> free_time_tracking g i \<noteq> None) \<and>
      \<not> (uncertainty_tracking g i \<noteq> None \<and> occupied_time_tracking g i \<noteq> None) \<and>
      \<not> (free_time_tracking g i \<noteq> None \<and> occupied_time_tracking g i \<noteq> None))"

text \<open>
  The durations the main loop displays for an occupied and for a free slot: the
  accumulated total plus the time since the record's start time.
\<close>

definition displayed_occupied_time :: "real \<Rightarrow> globals \<Rightarrow> nat \<Rightarrow> real option" where
  "displayed_occupied_time now g i =
     (case occupied_time_tracking g i of
        None \<Rightarrow> None
      | Some e \<Rightarrow> Some (total_occupied_time e + (now - occupied_start_time e)))"

definition displayed_free_time :: "real \<Rightarrow> globals \<Rightarrow> nat \<Rightarrow> real option" where
  "displayed_free_time now g i =
     (case free_time_tracking g i of
        None \<Rightarrow> None
      | Some e \<Rightarrow> Some (total_free_time e + (now - free_start_time e)))"

text \<open>
  The flicker filter as the specification words it: append \<open>now\<close>, discard the entries
  older than \<open>now - window\<close> (so an entry exactly at \<open>now - window\<close> stays), and compare
  the remaining count with the threshold. It is compared with
  \<open>check_frequent_detections\<close> below.
\<close>

definition spec_is_frequent :: "real list \<Rightarrow> real \<Rightarrow> int \<Rightarrow> real \<Rightarrow> bool" where
  "spec_is_frequent history now threshold window =
     (threshold \<le> int (length (filter (\<lambda>t. \<not> t < now - window) (history @ [now]))))"

text \<open>
  The corner list \<open>obj_rect\<close> the source passes to \<open>intersectConvexConvex\<close>, and the
  specification's "a box fully contains the slot polygon".
\<close>

definition obj_rect :: "detection \<Rightarrow> (real \<times> real) list" where
  "obj_rect det =
     (case det of (x1, y1, x2, y2, conf, cls) \<Rightarrow> [(x1, y1), (x2, y1), (x2, y2), (x1, y2)])"


section \<open>Auxiliary lemmas\<close>

subsection \<open>The effect of one frame on one slot index\<close>

lemma classify_space_state:
  "fst (classify_space cfg t i best g) = fst (slot_step cfg t best (records_of g i))"
  by (cases best)
     (simp add: classify_space_def slot_step_def records_of_def check_frequent_detections_def
        kept_history_def Let_def split: option.splits prod.splits)

lemma classify_space_same:
  "records_of (snd (classify_space cfg t i best g)) i = snd (slot_step cfg t best (records_of g i))"
  by (cases best)
     (simp add: classify_space_def slot_step_def records_of_def check_frequent_detections_def
        kept_history_def Let_def split: option.splits prod.splits)

lemma classify_space_other:
  "j \<noteq> i \<Longrightarrow> records_of (snd (classify_space cfg t i best g)) j = records_of g j"
  by (cases best)
     (simp add: classify_space_def records_of_def check_frequent_detections_def
        Let_def split: option.splits prod.splits)

lemma check_spaces_from_records:
  "check_spaces_from lib cfg t dets tr k xs g = (sts, g') \<Longrightarrow>
     length sts = length xs \<and>
     (\<forall>n<length xs.
        sts ! n = fst (slot_step cfg t (space_overlap lib (universal_detection cfg) tr dets (xs ! n))
                         (records_of g (k + n))) \<and>
        records_of g' (k + n) =
          snd (slot_step cfg t (space_overlap lib (universal_detection cfg) tr dets (xs ! n))
                 (records_of g (k + n)))) \<and>
     (\<forall>j. j < k \<or> k + length xs \<le> j \<longrightarrow> records_of g' j = records_of g j)"
proof (induction xs arbitrary: k g sts g')
  case Nil
  then show ?case by simp
next
  case (Cons x xs)
  obtain st g1 where c: "classify_space cfg t k
             (space_overlap lib (universal_detection cfg) tr dets x) g = (st, g1)"
    by (cases "classify_space cfg t k (space_overlap lib (universal_detection cfg) tr dets x) g")
  obtain sts2 g2 where r: "check_spaces_from lib cfg t dets tr (Suc k) xs g1 = (sts2, g2)"
    by (cases "check_spaces_from lib cfg t dets tr (Suc k) xs g1")
  from Cons.prems c r have eqs: "sts = st # sts2" "g' = g2" by auto
  note ih = Cons.IH[OF r]
  have st: "st = fst (slot_step cfg t (space_overlap lib (universal_detection cfg) tr dets x) (records_of g k))"
    using classify_space_state[of cfg t k _ g] c by (metis fst_conv)
  have same: "records_of g1 k = snd (slot_step cfg t (space_overlap lib (universal_detection cfg) tr dets x) (records_of g k))"
    using classify_space_same[of cfg t k _ g] c by (metis snd_conv)
  have other: "\<And>j. j \<noteq> k \<Longrightarrow> records_of g1 j = records_of g j"
    using classify_space_other[of _ k cfg t _ g] c by (metis snd_conv)
  show ?case
  proof (intro conjI allI impI)
    show "length sts = length (x # xs)" using ih eqs by simp
  next
    fix n assume n: "n < length (x # xs)"
    show "sts ! n = fst (slot_step cfg t (space_overlap lib (universal_detection cfg) tr dets ((x # xs) ! n))
                         (records_of g (k + n)))"
    proof (cases n)
      case 0 then show ?thesis using st eqs by simp
    next
      case (Suc m)
      then have m: "m < length xs" using n by simp
      have "k + n \<noteq> k" using Suc by simp
      then show ?thesis using ih m eqs Suc other[of "k + n"] by simp
    qed
  next
    fix n assume n: "n < length (x # xs)"
    show "records_of g' (k + n) =
          snd (slot_step cfg t (space_overlap lib (universal_detection cfg) tr dets ((x # xs) ! n))
                 (records_of g (k + n)))"
    proof (cases n)
      case 0
      have "records_of g2 k = records_of g1 k" using ih by simp
      then show ?thesis using same eqs 0 by simp
    next
      case (Suc m)
      then have m: "m < length xs" using n by simp
      have "k + n \<noteq> k" using Suc by simp
      then show ?thesis using ih m eqs Suc other[of "k + n"] by simp
    qed
  next
    fix j assume j: "j < k \<or> k + length (x # xs) \<le> j"
    then have "j \<noteq> k" by auto
    moreover have "records_of g2 j = records_of g1 j" using ih j by auto
    ultimately show "records_of g' j = records_of g j" using other eqs by simp
  qed
qed

lemma check_parking_spaces_records:
  assumes "check_parking_spaces lib t spaces dets tr cfg g = (sts, g')"
  shows "length sts = length spaces"
    and "i < length spaces \<Longrightarrow>
           sts ! i = fst (slot_step cfg t (space_overlap lib (universal_detection cfg) tr dets (spaces ! i))
                         (records_of g i))"
    and "i < length spaces \<Longrightarrow>
           records_of g' i = snd (slot_step cfg t (space_overlap lib (universal_detection cfg) tr dets (spaces ! i))
                         (records_of g i))"
    and "length spaces \<le> j \<Longrightarrow> records_of g' j = records_of g j"
  using check_spaces_from_records[of lib cfg t dets tr 0 spaces g sts g'] assms
  by (simp_all add: check_parking_spaces_def)

subsection \<open>Consecutive frames\<close>

lemma run_frames_records:
  "i < length spaces \<Longrightarrow> run_frames lib spaces tr cfg frames g = (stss, g') \<Longrightarrow>
     map (\<lambda>sts. sts ! i) stss =
       fst (slot_run cfg
              (map (\<lambda>(t, d). (t, space_overlap lib (universal_detection cfg) tr d (spaces ! i))) frames)
              (records_of g i)) \<and>
     records_of g' i =
       snd (slot_run cfg
              (map (\<lambda>(t, d). (t, space_overlap lib (universal_detection cfg) tr d (spaces ! i))) frames)
              (records_of g i))"
proof (induction frames arbitrary: g stss g')
  case Nil
  then show ?case by simp
next
  case (Cons fr frames)
  obtain t d where fr: "fr = (t, d)" by (cases fr)
  obtain sts g1 where c: "check_parking_spaces lib t spaces d tr cfg g = (sts, g1)"
    by (cases "check_parking_spaces lib t spaces d tr cfg g")
  obtain rest g2 where r: "run_frames lib spaces tr cfg frames g1 = (rest, g2)"
    by (cases "run_frames lib spaces tr cfg frames g1")
  from Cons.prems(2) fr c r have eqs: "stss = sts # rest" "g' = g2" by auto
  note ih = Cons.IH[OF Cons.prems(1) r]
  note a = check_parking_spaces_records(2)[OF c Cons.prems(1)]
  note b = check_parking_spaces_records(3)[OF c Cons.prems(1)]
  show ?case
    using ih a b eqs fr by (simp add: split_beta)
qed

lemma run_frames_length:
  "run_frames lib spaces tr cfg frames g = (stss, g') \<Longrightarrow> length stss = length frames"
  by (induction frames arbitrary: g stss g') (auto split: prod.splits)

lemma run_frames_take:
  "fst (run_frames lib spaces tr cfg (take n frames) g) =
     take n (fst (run_frames lib spaces tr cfg frames g))"
proof (induction frames arbitrary: n g)
  case Nil
  then show ?case by simp
next
  case (Cons fr frames)
  show ?case
  proof (cases n)
    case 0
    then show ?thesis by simp
  next
    case (Suc m)
    then show ?thesis using Cons.IH by (cases fr) (simp add: split_beta)
  qed
qed

lemma slot_run_append:
  "slot_run cfg (rs @ rs') v =
     (case slot_run cfg rs v of
        (s1, v1) \<Rightarrow> (case slot_run cfg rs' v1 of (s2, v2) \<Rightarrow> (s1 @ s2, v2)))"
  by (induction rs arbitrary: v) (auto split: prod.splits)

lemma take_prefix_facts:
  assumes "0 < n" "n \<le> length frames"
  shows "take n frames \<noteq> []" "last (take n frames) = frames ! (n - 1)"
    "hd (take n frames) = frames ! 0"
proof -
  show ne: "take n frames \<noteq> []" using assms by auto
  have len: "length (take n frames) = n" using assms by simp
  show "last (take n frames) = frames ! (n - 1)"
    using ne len assms by (simp add: last_conv_nth)
  show "hd (take n frames) = frames ! 0"
    using ne assms by (simp add: hd_conv_nth)
qed

subsection \<open>The three bands\<close>

lemma kept_history_length:
  "length (kept_history cfg t h) \<le> Suc (length (case h of None \<Rightarrow> [] | Some l \<Rightarrow> l))"
  unfolding kept_history_def
  by (rule order_trans[OF length_filter_le]) simp

lemma slot_step_band:
  assumes "uncertainty_threshold cfg \<le> r" "r < occupancy_threshold cfg"
  shows "slot_step cfg t (r, c) (u, f, oc, h) =
     (if int (length (kept_history cfg t h)) \<ge> frequent_detection_threshold cfg
           then Frequent_detection
           else (case u of
                   None \<Rightarrow> Uncertain
                 | Some e \<Rightarrow> if t - start_time e \<ge> uncertainty_time_threshold cfg
                            then Uncertain_occupied else Uncertain),
           (Some (case u of
                    None \<Rightarrow> \<lparr>start_time = t, last_area = r, object_class = c\<rparr>
                  | Some e \<Rightarrow> e\<lparr>last_area := r, object_class := c\<rparr>),
            None, None, Some (kept_history cfg t h)))"
  using assms by (simp add: slot_step_def)

lemma slot_step_Occupied_iff:
  "fst (slot_step cfg t (r, c) v) = Occupied \<longleftrightarrow> occupancy_threshold cfg \<le> r"
  by (cases v) (simp add: slot_step_def split: option.splits)

lemma slot_step_Free_iff:
  "fst (slot_step cfg t (r, c) v) = Free \<longleftrightarrow>
     r < occupancy_threshold cfg \<and> r < uncertainty_threshold cfg"
  by (cases v) (auto simp add: slot_step_def split: option.splits)

lemma slot_step_Frequent_iff:
  "fst (slot_step cfg t (r, c) (u, f, oc, h)) = Frequent_detection \<longleftrightarrow>
     in_band cfg r \<and> frequent_detection_threshold cfg \<le> int (length (kept_history cfg t h))"
  by (auto simp: slot_step_def in_band_def split: option.splits)

lemma slot_step_history:
  "snd (snd (snd (snd (slot_step cfg t (r, c) (u, f, oc, h))))) =
     (if in_band cfg r then Some (kept_history cfg t h) else None)"
  by (simp add: slot_step_def in_band_def)

lemma slot_step_shape:
  "slot_step cfg t (r, c) v = (st, (u, f, oc, h)) \<Longrightarrow>
     (st = Occupied \<longleftrightarrow> occupancy_threshold cfg \<le> r) \<and>
     (st = Free \<longleftrightarrow> r < occupancy_threshold cfg \<and> r < uncertainty_threshold cfg) \<and>
     (st \<in> {Uncertain, Uncertain_occupied, Frequent_detection} \<longleftrightarrow>
        uncertainty_threshold cfg \<le> r \<and> r < occupancy_threshold cfg) \<and>
     (st = Occupied \<longrightarrow> oc \<noteq> None \<and> u = None \<and> f = None \<and> h = None) \<and>
     (st = Free \<longrightarrow> f \<noteq> None \<and> u = None \<and> oc = None \<and> h = None) \<and>
     (st \<in> {Uncertain, Uncertain_occupied, Frequent_detection} \<longrightarrow>
        u \<noteq> None \<and> f = None \<and> oc = None \<and> h \<noteq> None)"
  by (cases v) (auto simp: slot_step_def split: if_splits option.splits)

lemma slot_step_occupied_record:
  "occupancy_threshold cfg \<le> r \<Longrightarrow>
     snd (slot_step cfg t (r, c) (u, f, Some e, h)) =
       (None, None,
        Some \<lparr>occupied_start_time = t,
              total_occupied_time = total_occupied_time e + (t - occupied_start_time e)\<rparr>,
        None)"
  by (simp add: slot_step_def)

subsection \<open>Runs that stay in one band\<close>

lemma dwell_example:
  assumes ut: "1/10 < uncertainty_threshold cfg" "uncertainty_threshold cfg \<le> 4/10"
    and ot: "4/10 < occupancy_threshold cfg"
    and utt: "uncertainty_time_threshold cfg = 3"
    and thr: "4 < frequent_detection_threshold cfg"
  shows "fst (slot_run cfg [(t, (1/10, c0)), (t + 1, (4/10, c1)), (t + 2, (4/10, c2)),
                            (t + 3, (4/10, c3)), (t + 4, (4/10, c4))] v)
         = [Free, Uncertain, Uncertain, Uncertain, Uncertain_occupied]"
proof -
  obtain f0 where s0: "slot_step cfg t (1/10, c0) v = (Free, (None, f0, None, None))"
    using ut ot by (cases v) (simp add: slot_step_def)
  define h1 where "h1 = kept_history cfg (t + 1) None"
  define h2 where "h2 = kept_history cfg (t + 2) (Some h1)"
  define h3 where "h3 = kept_history cfg (t + 3) (Some h2)"
  define h4 where "h4 = kept_history cfg (t + 4) (Some h3)"
  have l1: "length h1 \<le> 1" using kept_history_length[of cfg "t + 1" None] by (simp add: h1_def)
  have l2: "length h2 \<le> 2" using kept_history_length[of cfg "t + 2" "Some h1"] l1 by (simp add: h2_def)
  have l3: "length h3 \<le> 3" using kept_history_length[of cfg "t + 3" "Some h2"] l2 by (simp add: h3_def)
  have l4: "length h4 \<le> 4" using kept_history_length[of cfg "t + 4" "Some h3"] l3 by (simp add: h4_def)
  define u1 where "u1 = \<lparr>start_time = t + 1, last_area = 4/10, object_class = c1\<rparr>"
  have s1: "slot_step cfg (t + 1) (4/10, c1) (None, f0, None, None) = (Uncertain, (Some u1, None, None, Some h1))"
    using slot_step_band[OF ut(2) ot, of "t + 1" c1 None f0 None None] l1 thr
    by (simp add: h1_def u1_def)
  define u2 where "u2 = u1\<lparr>last_area := 4/10, object_class := c2\<rparr>"
  have s2: "slot_step cfg (t + 2) (4/10, c2) (Some u1, None, None, Some h1) = (Uncertain, (Some u2, None, None, Some h2))"
    using slot_step_band[OF ut(2) ot, of "t + 2" c2 "Some u1" None None "Some h1"] l2 thr utt
    by (simp add: h2_def u2_def u1_def)
  define u3 where "u3 = u2\<lparr>last_area := 4/10, object_class := c3\<rparr>"
  have s3: "slot_step cfg (t + 3) (4/10, c3) (Some u2, None, None, Some h2) = (Uncertain, (Some u3, None, None, Some h3))"
    using slot_step_band[OF ut(2) ot, of "t + 3" c3 "Some u2" None None "Some h2"] l3 thr utt
    by (simp add: h3_def u3_def u2_def u1_def)
  have s4: "fst (slot_step cfg (t + 4) (4/10, c4) (Some u3, None, None, Some h3)) = Uncertain_occupied"
    using slot_step_band[OF ut(2) ot, of "t + 4" c4 "Some u3" None None "Some h3"] l4 thr utt
    by (simp add: h4_def u3_def u2_def u1_def)
  show ?thesis
    using s0 s1 s2 s3 s4 by (simp add: split_beta)
qed

lemma occupied_run:
  assumes "\<forall>s \<in> set (fst (slot_run cfg rs (u, f, Some e, h))). s = Occupied"
    and "rs \<noteq> []"
  shows "fst (snd (snd (snd (slot_run cfg rs (u, f, Some e, h))))) =
           Some \<lparr>occupied_start_time = fst (last rs),
                 total_occupied_time = total_occupied_time e + (fst (last rs) - occupied_start_time e)\<rparr>"
  using assms
proof (induction rs arbitrary: u f e h)
  case Nil
  then show ?case by simp
next
  case (Cons x rs)
  obtain t r c where x: "x = (t, (r, c))" by (cases x) auto
  have occ: "r \<ge> occupancy_threshold cfg"
    using Cons.prems(1) x slot_step_Occupied_iff[of cfg t r c "(u, f, Some e, h)"]
    by (simp add: split_beta)
  define e1 where "e1 = \<lparr>occupied_start_time = t,
       total_occupied_time = total_occupied_time e + (t - occupied_start_time e)\<rparr>"
  have step: "slot_step cfg t (r, c) (u, f, Some e, h) = (Occupied, (None, None, Some e1, None))"
    using occ by (simp add: slot_step_def e1_def)
  show ?case
  proof (cases "rs = []")
    case True
    then show ?thesis using step x by (simp add: e1_def)
  next
    case False
    have "\<forall>s \<in> set (fst (slot_run cfg rs (None, None, Some e1, None))). s = Occupied"
      using Cons.prems(1) step x by (simp add: split_beta)
    from Cons.IH[OF this False] show ?thesis
      using step x False by (simp add: split_beta e1_def)
  qed
qed

lemma free_run:
  assumes "\<forall>s \<in> set (fst (slot_run cfg rs (u, Some e, oc, h))). s = Free"
    and "rs \<noteq> []"
  shows "fst (snd (snd (slot_run cfg rs (u, Some e, oc, h)))) =
           Some \<lparr>free_start_time = fst (last rs),
                 total_free_time = total_free_time e + (fst (last rs) - free_start_time e)\<rparr>"
  using assms
proof (induction rs arbitrary: u e oc h)
  case Nil
  then show ?case by simp
next
  case (Cons x rs)
  obtain t r c where x: "x = (t, (r, c))" by (cases x) auto
  have fr: "r < occupancy_threshold cfg \<and> r < uncertainty_threshold cfg"
    using Cons.prems(1) x slot_step_Free_iff[of cfg t r c "(u, Some e, oc, h)"]
    by (simp add: split_beta)
  define e1 where "e1 = \<lparr>free_start_time = t,
       total_free_time = total_free_time e + (t - free_start_time e)\<rparr>"
  have step: "slot_step cfg t (r, c) (u, Some e, oc, h) = (Free, (None, Some e1, None, None))"
    using fr by (simp add: slot_step_def e1_def)
  show ?case
  proof (cases "rs = []")
    case True
    then show ?thesis using step x by (simp add: e1_def)
  next
    case False
    have "\<forall>s \<in> set (fst (slot_run cfg rs (None, Some e1, None, None))). s = Free"
      using Cons.prems(1) step x by (simp add: split_beta)
    from Cons.IH[OF this False] show ?thesis
      using step x False by (simp add: split_beta e1_def)
  qed
qed

lemma occupied_run_fresh:
  assumes "\<forall>s \<in> set (fst (slot_run cfg rs (u, f, None, h))). s = Occupied"
    and "rs \<noteq> []"
  shows "fst (snd (snd (snd (slot_run cfg rs (u, f, None, h))))) =
           Some \<lparr>occupied_start_time = fst (last rs),
                 total_occupied_time = fst (last rs) - fst (hd rs)\<rparr>"
proof -
  obtain t r c rest where rs: "rs = (t, (r, c)) # rest"
    using assms(2) by (cases rs) auto
  have occ: "occupancy_threshold cfg \<le> r"
    using assms(1) rs slot_step_Occupied_iff[of cfg t r c "(u, f, None, h)"]
    by (simp add: split_beta)
  define e where "e = \<lparr>occupied_start_time = t, total_occupied_time = 0\<rparr>"
  have step: "slot_step cfg t (r, c) (u, f, None, h) = (Occupied, (None, None, Some e, None))"
    using occ by (simp add: slot_step_def e_def)
  show ?thesis
  proof (cases "rest = []")
    case True
    then show ?thesis using step rs by (simp add: e_def)
  next
    case False
    have "\<forall>s \<in> set (fst (slot_run cfg rest (None, None, Some e, None))). s = Occupied"
      using assms(1) step rs by (simp add: split_beta)
    from occupied_run[OF this False] show ?thesis
      using step rs False by (simp add: split_beta e_def)
  qed
qed

lemma free_run_fresh:
  assumes "\<forall>s \<in> set (fst (slot_run cfg rs (u, None, oc, h))). s = Free"
    and "rs \<noteq> []"
  shows "fst (snd (snd (slot_run cfg rs (u, None, oc, h)))) =
           Some \<lparr>free_start_time = fst (last rs),
                 total_free_time = fst (last rs) - fst (hd rs)\<rparr>"
proof -
  obtain t r c rest where rs: "rs = (t, (r, c)) # rest"
    using assms(2) by (cases rs) auto
  have fr: "r < occupancy_threshold cfg \<and> r < uncertainty_threshold cfg"
    using assms(1) rs slot_step_Free_iff[of cfg t r c "(u, None, oc, h)"]
    by (simp add: split_beta)
  define e where "e = \<lparr>free_start_time = t, total_free_time = 0\<rparr>"
  have step: "slot_step cfg t (r, c) (u, None, oc, h) = (Free, (None, Some e, None, None))"
    using fr by (simp add: slot_step_def e_def)
  show ?thesis
  proof (cases "rest = []")
    case True
    then show ?thesis using step rs by (simp add: e_def)
  next
    case False
    have "\<forall>s \<in> set (fst (slot_run cfg rest (None, Some e, None, None))). s = Free"
      using assms(1) step rs by (simp add: split_beta)
    from free_run[OF this False] show ?thesis
      using step rs False by (simp add: split_beta e_def)
  qed
qed

lemma occupied_frames:
  assumes "i < length spaces" "frames \<noteq> []" "occupied_time_tracking g i = None"
    and "\<forall>sts \<in> set (fst (run_frames lib spaces tr cfg frames g)). sts ! i = Occupied"
  shows "occupied_time_tracking (snd (run_frames lib spaces tr cfg frames g)) i =
           Some \<lparr>occupied_start_time = fst (last frames),
                 total_occupied_time = fst (last frames) - fst (hd frames)\<rparr>"
proof -
  let ?r = "run_frames lib spaces tr cfg frames g"
  let ?rs = "map (\<lambda>(t, d). (t, space_overlap lib (universal_detection cfg) tr d (spaces ! i))) frames"
  have p: "?r = (fst ?r, snd ?r)" by simp
  note rr = run_frames_records[OF assms(1) p]
  have v: "records_of g i = (uncertainty_tracking g i, free_time_tracking g i, None, detection_history g i)"
    using assms(3) by (simp add: records_of_def)
  have all: "\<forall>s \<in> set (fst (slot_run cfg ?rs (uncertainty_tracking g i, free_time_tracking g i, None, detection_history g i))). s = Occupied"
    using rr assms(4) v by (metis (no_types, lifting) imageE list.set_map)
  have ne: "?rs \<noteq> []" using assms(2) by simp
  have l: "fst (last ?rs) = fst (last frames)" "fst (hd ?rs) = fst (hd frames)"
    using assms(2) by (simp_all add: last_map hd_map split_beta)
  have rec: "records_of (snd ?r) i = snd (slot_run cfg ?rs (records_of g i))"
    using rr by simp
  have "occupied_time_tracking (snd ?r) i = fst (snd (snd (records_of (snd ?r) i)))"
    by (simp add: records_of_def)
  also have "\<dots> = fst (snd (snd (snd (slot_run cfg ?rs (records_of g i)))))"
    by (simp only: rec)
  also have "\<dots> = Some \<lparr>occupied_start_time = fst (last frames),
                 total_occupied_time = fst (last frames) - fst (hd frames)\<rparr>"
    using occupied_run_fresh[OF all ne] v l by simp
  finally show ?thesis .
qed

lemma free_frames:
  assumes "i < length spaces" "frames \<noteq> []" "free_time_tracking g i = None"
    and "\<forall>sts \<in> set (fst (run_frames lib spaces tr cfg frames g)). sts ! i = Free"
  shows "free_time_tracking (snd (run_frames lib spaces tr cfg frames g)) i =
           Some \<lparr>free_start_time = fst (last frames),
                 total_free_time = fst (last frames) - fst (hd frames)\<rparr>"
proof -
  let ?r = "run_frames lib spaces tr cfg frames g"
  let ?rs = "map (\<lambda>(t, d). (t, space_overlap lib (universal_detection cfg) tr d (spaces ! i))) frames"
  have p: "?r = (fst ?r, snd ?r)" by simp
  note rr = run_frames_records[OF assms(1) p]
  have v: "records_of g i = (uncertainty_tracking g i, None, occupied_time_tracking g i, detection_history g i)"
    using assms(3) by (simp add: records_of_def)
  have all: "\<forall>s \<in> set (fst (slot_run cfg ?rs (uncertainty_tracking g i, None, occupied_time_tracking g i, detection_history g i))). s = Free"
    using rr assms(4) v by (metis (no_types, lifting) imageE list.set_map)
  have ne: "?rs \<noteq> []" using assms(2) by simp
  have l: "fst (last ?rs) = fst (last frames)" "fst (hd ?rs) = fst (hd frames)"
    using assms(2) by (simp_all add: last_map hd_map split_beta)
  have rec: "records_of (snd ?r) i = snd (slot_run cfg ?rs (records_of g i))"
    using rr by simp
  have "free_time_tracking (snd ?r) i = fst (snd (records_of (snd ?r) i))"
    by (simp add: records_of_def)
  also have "\<dots> = fst (snd (snd (slot_run cfg ?rs (records_of g i))))"
    by (simp only: rec)
  also have "\<dots> = Some \<lparr>free_start_time = fst (last frames),
                 total_free_time = fst (last frames) - fst (hd frames)\<rparr>"
    using free_run_fresh[OF all ne] v l by simp
  finally show ?thesis .
qed

lemma filter_newer_twice:
  fixes a b :: real
  assumes "a \<le> b"
  shows "filter (\<lambda>s. s > b) (filter (\<lambda>s. s > a) xs) = filter (\<lambda>s. s > b) xs"
  using assms by (induction xs) auto

lemma band_run:
  assumes "\<forall>x \<in> set rs. in_band cfg (fst (snd x))"
    and "sorted (map fst rs)" and "rs \<noteq> []"
  shows "snd (snd (snd (snd (slot_run cfg rs (u, f, oc, h))))) =
           Some (filter (\<lambda>s. s > fst (last rs) - frequent_detection_window cfg)
                   ((case h of None \<Rightarrow> [] | Some l \<Rightarrow> l) @ map fst rs)) \<and>
         (last (fst (slot_run cfg rs (u, f, oc, h))) = Frequent_detection \<longleftrightarrow>
            frequent_detection_threshold cfg \<le>
              int (length (filter (\<lambda>s. s > fst (last rs) - frequent_detection_window cfg)
                   ((case h of None \<Rightarrow> [] | Some l \<Rightarrow> l) @ map fst rs))))"
  using assms
proof (induction rs rule: rev_induct)
  case Nil
  then show ?case by simp
next
  case (snoc x rs)
  obtain t r c where x: "x = (t, (r, c))" by (cases x) auto
  have band: "uncertainty_threshold cfg \<le> r" "r < occupancy_threshold cfg"
    using snoc.prems(1) x by (simp_all add: in_band_def)
  obtain sts u1 f1 oc1 h1 where run: "slot_run cfg rs (u, f, oc, h) = (sts, (u1, f1, oc1, h1))"
    by (cases "slot_run cfg rs (u, f, oc, h)") auto
  have app: "slot_run cfg (rs @ [x]) (u, f, oc, h) =
      (sts @ [fst (slot_step cfg t (r, c) (u1, f1, oc1, h1))],
       snd (slot_step cfg t (r, c) (u1, f1, oc1, h1)))"
    using run x by (simp add: slot_run_append split_beta)
  have step: "snd (snd (snd (snd (slot_step cfg t (r, c) (u1, f1, oc1, h1))))) =
                Some (kept_history cfg t h1)"
    and st: "fst (slot_step cfg t (r, c) (u1, f1, oc1, h1)) = Frequent_detection \<longleftrightarrow>
               frequent_detection_threshold cfg \<le> int (length (kept_history cfg t h1))"
    using slot_step_band[OF band, of t c u1 f1 oc1 h1] by (auto split: option.splits)
  have kept: "kept_history cfg t h1 =
      filter (\<lambda>s. s > t - frequent_detection_window cfg)
        ((case h of None \<Rightarrow> [] | Some l \<Rightarrow> l) @ map fst rs @ [t])"
  proof (cases "rs = []")
    case True
    then show ?thesis using run by (simp add: kept_history_def)
  next
    case False
    have "\<forall>x \<in> set rs. in_band cfg (fst (snd x))" using snoc.prems(1) by simp
    moreover have "sorted (map fst rs)" using snoc.prems(2) by (simp add: sorted_append)
    ultimately have ih: "h1 = Some (filter (\<lambda>s. s > fst (last rs) - frequent_detection_window cfg)
                   ((case h of None \<Rightarrow> [] | Some l \<Rightarrow> l) @ map fst rs))"
      using snoc.IH False run by simp
    have le: "fst (last rs) \<le> t"
      using snoc.prems(2) False x by (simp add: sorted_append)
    then have le': "fst (last rs) - frequent_detection_window cfg \<le> t - frequent_detection_window cfg"
      by simp
    show ?thesis
      using ih filter_newer_twice[OF le'] by (simp add: kept_history_def)
  qed
  show ?case
    using app step st kept x by simp
qed

lemma band_run_frequent:
  assumes "\<forall>x \<in> set rs. in_band cfg (fst (snd x))"
    and "sorted (map fst rs)" and "rs \<noteq> []"
    and "fst (last rs) - frequent_detection_window cfg < fst (hd rs)"
    and "frequent_detection_threshold cfg \<le> int (length rs)"
  shows "last (fst (slot_run cfg rs v)) = Frequent_detection"
proof -
  obtain u f oc h where v: "v = (u, f, oc, h)" by (cases v) auto
  have all: "\<forall>s \<in> set (map fst rs). s > fst (last rs) - frequent_detection_window cfg"
  proof
    fix s assume s: "s \<in> set (map fst rs)"
    have "hd (map fst rs) \<le> s"
      using assms(2,3) s by (cases rs) auto
    then show "s > fst (last rs) - frequent_detection_window cfg"
      using assms(3,4) by (simp add: hd_map)
  qed
  then have "filter (\<lambda>s. s > fst (last rs) - frequent_detection_window cfg) (map fst rs) = map fst rs"
    by (simp add: filter_id_conv)
  then have "length rs \<le> length (filter (\<lambda>s. s > fst (last rs) - frequent_detection_window cfg)
                   ((case h of None \<Rightarrow> [] | Some l \<Rightarrow> l) @ map fst rs))"
    by simp
  then show ?thesis
    using band_run[OF assms(1-3), of u f oc h] assms(5) v by simp
qed

subsection \<open>The best overlap\<close>

lemma best_overlap_Cons:
  "best_overlap lib universal tracked pts a (det # dets) (m, c) =
     (case box_ratio lib universal tracked pts a det of
        None \<Rightarrow> best_overlap lib universal tracked pts a dets (m, c)
      | Some r \<Rightarrow>
          if r > m then best_overlap lib universal tracked pts a dets (r, Some (box_class det))
          else best_overlap lib universal tracked pts a dets (m, c))"
  by (cases det) (simp add: box_ratio_def box_class_def Let_def split: option.splits)

lemma box_ratio_alt:
  "box_ratio lib universal tracked pts a det =
     (if \<not> universal \<and> box_class det \<notin> set tracked then None
      else (case intersectConvexConvex lib pts (obj_rect det) of
              None \<Rightarrow> None
            | Some overlap \<Rightarrow> Some (if a > 0 then overlap / a else 0)))"
  by (cases det) (simp add: box_ratio_def box_class_def obj_rect_def)

lemma best_overlap_keep:
  "(\<forall>d \<in> set dets. \<forall>r. box_ratio lib universal tracked pts a d = Some r \<longrightarrow> r \<le> m) \<Longrightarrow>
     best_overlap lib universal tracked pts a dets (m, c) = (m, c)"
proof (induction dets)
  case Nil
  then show ?case by simp
next
  case (Cons d dets)
  then show ?case
    by (cases "box_ratio lib universal tracked pts a d") (auto simp: best_overlap_Cons)
qed

lemma best_overlap_pick:
  "j < length dets \<Longrightarrow> box_ratio lib universal tracked pts a (dets ! j) = Some rj \<Longrightarrow> m < rj \<Longrightarrow>
   (\<forall>i<length dets. \<forall>r. box_ratio lib universal tracked pts a (dets ! i) = Some r \<longrightarrow> r \<le> rj) \<Longrightarrow>
   (\<forall>i<j. \<forall>r. box_ratio lib universal tracked pts a (dets ! i) = Some r \<longrightarrow> r < rj) \<Longrightarrow>
     best_overlap lib universal tracked pts a dets (m, c) = (rj, Some (box_class (dets ! j)))"
proof (induction dets arbitrary: j m c)
  case Nil
  then show ?case by simp
next
  case (Cons d dets)
  show ?case
  proof (cases j)
    case 0
    have rest: "\<forall>d' \<in> set dets. \<forall>r. box_ratio lib universal tracked pts a d' = Some r \<longrightarrow> r \<le> rj"
    proof (intro ballI allI impI)
      fix d' r assume d': "d' \<in> set dets" and r: "box_ratio lib universal tracked pts a d' = Some r"
      from d' obtain i where i: "i < length dets" "dets ! i = d'" by (auto simp: in_set_conv_nth)
      then have "Suc i < length (d # dets)" "(d # dets) ! Suc i = d'" by simp_all
      with Cons.prems(4) r show "r \<le> rj" by blast
    qed
    from 0 Cons.prems(2) have "box_ratio lib universal tracked pts a d = Some rj" by simp
    then show ?thesis
      using Cons.prems(3) best_overlap_keep[OF rest] 0 by (simp add: best_overlap_Cons)
  next
    case (Suc j')
    have j': "j' < length dets" using Cons.prems(1) Suc by simp
    have rj: "box_ratio lib universal tracked pts a (dets ! j') = Some rj"
      using Cons.prems(2) Suc by simp
    have all: "\<forall>i<length dets. \<forall>r. box_ratio lib universal tracked pts a (dets ! i) = Some r \<longrightarrow> r \<le> rj"
    proof (intro allI impI)
      fix i r assume "i < length dets" "box_ratio lib universal tracked pts a (dets ! i) = Some r"
      then have "Suc i < length (d # dets)" "box_ratio lib universal tracked pts a ((d # dets) ! Suc i) = Some r"
        by simp_all
      with Cons.prems(4) show "r \<le> rj" by blast
    qed
    have before: "\<forall>i<j'. \<forall>r. box_ratio lib universal tracked pts a (dets ! i) = Some r \<longrightarrow> r < rj"
    proof (intro allI impI)
      fix i r assume "i < j'" "box_ratio lib universal tracked pts a (dets ! i) = Some r"
      then have "Suc i < j" "box_ratio lib universal tracked pts a ((d # dets) ! Suc i) = Some r"
        using Suc by simp_all
      with Cons.prems(5) show "r < rj" by blast
    qed
    have hd: "\<forall>r. box_ratio lib universal tracked pts a d = Some r \<longrightarrow> r < rj"
      using Cons.prems(5) Suc by (metis nth_Cons_0 zero_less_Suc)
    show ?thesis
    proof (cases "box_ratio lib universal tracked pts a d")
      case None
      then show ?thesis
        using Cons.IH[OF j' rj Cons.prems(3) all before] Suc by (simp add: best_overlap_Cons)
    next
      case (Some r)
      then have "r < rj" using hd by simp
      then show ?thesis
        using Cons.IH[OF j' rj Cons.prems(3) all before, of c]
          Cons.IH[OF j' rj \<open>r < rj\<close> all before, of "Some (box_class d)"] Some Suc
        by (simp add: best_overlap_Cons)
    qed
  qed
qed




lemma first_best_exists:
  assumes "\<exists>d \<in> set dets. \<exists>r. box_ratio lib universal tracked pts a d = Some r \<and> 0 < r"
  shows "\<exists>j rj. j < length dets \<and> box_ratio lib universal tracked pts a (dets ! j) = Some rj \<and>
           0 < rj \<and>
           (\<forall>i<length dets. \<forall>r. box_ratio lib universal tracked pts a (dets ! i) = Some r \<longrightarrow> r \<le> rj) \<and>
           (\<forall>i<j. \<forall>r. box_ratio lib universal tracked pts a (dets ! i) = Some r \<longrightarrow> r < rj)"
proof -
  define R where "R = {r. \<exists>i<length dets. box_ratio lib universal tracked pts a (dets ! i) = Some r}"
  have "R \<subseteq> (\<lambda>i. the (box_ratio lib universal tracked pts a (dets ! i))) ` {..<length dets}"
  proof
    fix r assume "r \<in> R"
    then obtain i where i: "i < length dets" "box_ratio lib universal tracked pts a (dets ! i) = Some r"
      by (auto simp: R_def)
    then have "r = the (box_ratio lib universal tracked pts a (dets ! i))" by simp
    then show "r \<in> (\<lambda>i. the (box_ratio lib universal tracked pts a (dets ! i))) ` {..<length dets}"
      using i(1) by blast
  qed
  then have fin: "finite R" by (rule finite_subset) simp
  from assms obtain d r0 where d: "d \<in> set dets"
    "box_ratio lib universal tracked pts a d = Some r0" "0 < r0" by blast
  then obtain i0 where "i0 < length dets" "dets ! i0 = d" by (auto simp: in_set_conv_nth)
  then have r0: "r0 \<in> R" using d by (auto simp: R_def)
  define rj where "rj = Max R"
  have "R \<noteq> {}" using r0 by blast
  then have rjR: "rj \<in> R" unfolding rj_def by (rule Max_in[OF fin])
  have rjmax: "\<And>r. r \<in> R \<Longrightarrow> r \<le> rj" using fin by (simp add: rj_def)
  have pos: "0 < rj" using rjmax[OF r0] d(3) by simp
  define j where "j = (LEAST i. i < length dets \<and> box_ratio lib universal tracked pts a (dets ! i) = Some rj)"
  from rjR have ex: "\<exists>i. i < length dets \<and> box_ratio lib universal tracked pts a (dets ! i) = Some rj"
    by (simp add: R_def)
  then have j: "j < length dets \<and> box_ratio lib universal tracked pts a (dets ! j) = Some rj"
    unfolding j_def by (rule LeastI_ex)
  have least: "\<And>i. i < length dets \<and> box_ratio lib universal tracked pts a (dets ! i) = Some rj \<Longrightarrow> j \<le> i"
    unfolding j_def by (rule Least_le)
  have all: "\<forall>i<length dets. \<forall>r. box_ratio lib universal tracked pts a (dets ! i) = Some r \<longrightarrow> r \<le> rj"
    using rjmax by (auto simp: R_def)
  have before: "\<forall>i<j. \<forall>r. box_ratio lib universal tracked pts a (dets ! i) = Some r \<longrightarrow> r < rj"
  proof (intro allI impI)
    fix i r assume i: "i < j" and r: "box_ratio lib universal tracked pts a (dets ! i) = Some r"
    have il: "i < length dets" using i j by simp
    then have "r \<le> rj" using all r by blast
    moreover have "r \<noteq> rj" using least[of i] il r i by auto
    ultimately show "r < rj" by simp
  qed
  show ?thesis using j pos all before by blast
qed

subsection \<open>Scanning and editing the slot list\<close>

lemma first_hit_none:
  "(\<forall>s \<in> set xs. \<not> space_hit p s) \<Longrightarrow> first_hit p k xs = None"
  by (induction xs arbitrary: k) auto

lemma first_hit_least:
  "i < length xs \<Longrightarrow> space_hit p (xs ! i) \<Longrightarrow> (\<forall>j<i. \<not> space_hit p (xs ! j)) \<Longrightarrow>
     first_hit p k xs = Some (k + i)"
proof (induction xs arbitrary: i k)
  case Nil
  then show ?case by simp
next
  case (Cons s xs)
  show ?case
  proof (cases i)
    case 0
    then show ?thesis using Cons.prems by simp
  next
    case (Suc i')
    have "\<not> space_hit p s" using Cons.prems(3) Suc by (metis nth_Cons_0 zero_less_Suc)
    moreover have "\<forall>j<i'. \<not> space_hit p (xs ! j)"
      using Cons.prems(3) Suc by (metis Suc_less_eq nth_Cons_Suc)
    ultimately show ?thesis
      using Cons.IH[of i' "Suc k"] Cons.prems(1,2) Suc by simp
  qed
qed

lemma del_at_nth:
  "i < length xs \<Longrightarrow>
     length (del_at i xs) = length xs - 1 \<and>
     (\<forall>j<i. del_at i xs ! j = xs ! j) \<and>
     (\<forall>j. i \<le> j \<and> Suc j < length xs \<longrightarrow> del_at i xs ! j = xs ! Suc j)"
  by (auto simp: del_at_def nth_append min_def)

lemma edit_mode_second_click:
  assumes "\<not> debug_mode g" "\<not> delete_mode g" "edit_mode g"
    and "editing_space_index g = int i" "i < length (parking_spaces g)"
    and "current_parking_space g = parking_spaces g ! i"
    and "length (parking_spaces g ! i) = 4"
  shows "draw_parking_space EVENT_LBUTTONDOWN x y dets g =
           Inr (g\<lparr>current_parking_space := [], editing_space_index := - 1\<rparr>)"
  using assms
  by (simp add: draw_parking_space_def append_click_def py_setitem_def Let_def)

subsection \<open>Evaluation of the examples\<close>

lemma space_hit_examples:
  "\<not> space_hit (25, 5) [(0, 0), (10, 0), (10, 10), (0, 10)]"
  "space_hit (25, 5) [(20, 0), (30, 0), (30, 10), (20, 10)]"
  "space_hit (5, 5) [(0, 0), (10, 0), (10, 10), (0, 10)]"
  "\<not> space_hit (5, 5) [(20, 0), (30, 0), (30, 10), (20, 10)]"
  "\<not> space_hit (5, 5) [(40, 0), (50, 0), (50, 10), (40, 10)]"
  by (simp_all add: space_hit_def point_in_polygon_def edge_crossed_def)

lemma three_slots_click:
  "first_hit (25, 5) 0 three_slots = Some 1"
  using space_hit_examples by (simp add: three_slots_def)

lemma square_overlaps:
  "space_overlap example_cv2 True [2, 67] box01 square = (1/10, Some 2)"
  "space_overlap example_cv2 True [2, 67] box04 square = (4/10, Some 2)"
  "space_overlap example_cv2 True [2, 67] box10 square = (1, Some 2)"
  "space_overlap example_cv2 True [2, 67] [] square = (0, None)"
  by (simp_all add: space_overlap_def example_cv2_def polygon_area_def square_def
        bbox_overlap_def py_int_def box01_def box04_def box10_def)

lemma after_delete_frame:
  "fst (check_parking_spaces example_cv2 105 (parking_spaces after_delete)
          [(40, 0, 50, 10, 9/10, 2)] [2, 67] default_settings after_delete) ! 1 = Occupied"
  by (simp add: after_delete_def initial_globals_def check_parking_spaces_def
        classify_space_def space_overlap_def example_cv2_def polygon_area_def
        bbox_overlap_def py_int_def default_settings_def)

lemma frame_boxes_states:
  "fst (check_parking_spaces example_cv2 100 three_slots frame_boxes [2, 67]
          default_settings initial_globals) = [Occupied, Uncertain, Free]"
  by (simp add: initial_globals_def check_parking_spaces_def three_slots_def frame_boxes_def
        classify_space_def space_overlap_def example_cv2_def polygon_area_def
        bbox_overlap_def py_int_def default_settings_def check_frequent_detections_def)

lemma occupied_frames_example_states:
  "fst (run_frames example_cv2 [square] [2, 67] default_settings occupied_frames_example
          initial_globals) = [ [Occupied], [Occupied], [Occupied] ]"
  using square_overlaps
  by (simp add: occupied_frames_example_def check_parking_spaces_def classify_space_def
        default_settings_def)

lemma free_frames_example_states:
  "fst (run_frames example_cv2 [square] [2, 67] default_settings free_frames_example
          initial_globals) = [ [Free], [Free], [Free] ]"
  using square_overlaps
  by (simp add: free_frames_example_def check_parking_spaces_def classify_space_def
        default_settings_def)

lemma tie_boxes_ratios:
  "box_ratio example_cv2 True [2, 67] square (contourArea example_cv2 square) (tie_boxes ! 0) = Some (1/2)"
  "box_ratio example_cv2 True [2, 67] square (contourArea example_cv2 square) (tie_boxes ! 1) = Some (1/2)"
  "box_ratio example_cv2 True [2, 67] square (contourArea example_cv2 square) (far_box ! 0) = Some 0"
  "box_class (tie_boxes ! 0) = 2"
  by (simp_all add: tie_boxes_def far_box_def box_ratio_def box_class_def example_cv2_def
        polygon_area_def bbox_overlap_def square_def py_int_def)

lemma occupied_frames_from:
  assumes "i < length spaces" "frames \<noteq> []" "occupied_time_tracking g i = Some e"
    and "\<forall>sts \<in> set (fst (run_frames lib spaces tr cfg frames g)). sts ! i = Occupied"
  shows "occupied_time_tracking (snd (run_frames lib spaces tr cfg frames g)) i =
           Some \<lparr>occupied_start_time = fst (last frames),
                 total_occupied_time =
                   total_occupied_time e + (fst (last frames) - occupied_start_time e)\<rparr>"
proof -
  let ?r = "run_frames lib spaces tr cfg frames g"
  let ?rs = "map (\<lambda>(t, d). (t, space_overlap lib (universal_detection cfg) tr d (spaces ! i))) frames"
  have p: "?r = (fst ?r, snd ?r)" by simp
  note rr = run_frames_records[OF assms(1) p]
  have v: "records_of g i = (uncertainty_tracking g i, free_time_tracking g i, Some e, detection_history g i)"
    using assms(3) by (simp add: records_of_def)
  have all: "\<forall>s \<in> set (fst (slot_run cfg ?rs (uncertainty_tracking g i, free_time_tracking g i, Some e, detection_history g i))). s = Occupied"
    using rr assms(4) v by (metis (no_types, lifting) imageE list.set_map)
  have ne: "?rs \<noteq> []" using assms(2) by simp
  have l: "fst (last ?rs) = fst (last frames)"
    using assms(2) by (simp add: last_map split_beta)
  have rec: "records_of (snd ?r) i = snd (slot_run cfg ?rs (records_of g i))"
    using rr by simp
  have "occupied_time_tracking (snd ?r) i = fst (snd (snd (records_of (snd ?r) i)))"
    by (simp add: records_of_def)
  also have "\<dots> = fst (snd (snd (snd (slot_run cfg ?rs (records_of g i)))))"
    by (simp only: rec)
  also have "\<dots> = Some \<lparr>occupied_start_time = fst (last frames),
                 total_occupied_time =
                   total_occupied_time e + (fst (last frames) - occupied_start_time e)\<rparr>"
    using occupied_run[OF all ne] v l by simp
  finally show ?thesis .
qed

lemma free_frames_from:
  assumes "i < length spaces" "frames \<noteq> []" "free_time_tracking g i = Some e"
    and "\<forall>sts \<in> set (fst (run_frames lib spaces tr cfg frames g)). sts ! i = Free"
  shows "free_time_tracking (snd (run_frames lib spaces tr cfg frames g)) i =
           Some \<lparr>free_start_time = fst (last frames),
                 total_free_time = total_free_time e + (fst (last frames) - free_start_time e)\<rparr>"
proof -
  let ?r = "run_frames lib spaces tr cfg frames g"
  let ?rs = "map (\<lambda>(t, d). (t, space_overlap lib (universal_detection cfg) tr d (spaces ! i))) frames"
  have p: "?r = (fst ?r, snd ?r)" by simp
  note rr = run_frames_records[OF assms(1) p]
  have v: "records_of g i = (uncertainty_tracking g i, Some e, occupied_time_tracking g i, detection_history g i)"
    using assms(3) by (simp add: records_of_def)
  have all: "\<forall>s \<in> set (fst (slot_run cfg ?rs (uncertainty_tracking g i, Some e, occupied_time_tracking g i, detection_history g i))). s = Free"
    using rr assms(4) v by (metis (no_types, lifting) imageE list.set_map)
  have ne: "?rs \<noteq> []" using assms(2) by simp
  have l: "fst (last ?rs) = fst (last frames)"
    using assms(2) by (simp add: last_map split_beta)
  have rec: "records_of (snd ?r) i = snd (slot_run cfg ?rs (records_of g i))"
    using rr by simp
  have "free_time_tracking (snd ?r) i = fst (snd (records_of (snd ?r) i))"
    by (simp add: records_of_def)
  also have "\<dots> = fst (snd (snd (slot_run cfg ?rs (records_of g i))))"
    by (simp only: rec)
  also have "\<dots> = Some \<lparr>free_start_time = fst (last frames),
                 total_free_time = total_free_time e + (fst (last frames) - free_start_time e)\<rparr>"
    using free_run[OF all ne] v l by simp
  finally show ?thesis .
qed

lemma first_frame_done_fields:
  "parking_spaces first_frame_done = two_slots"
  "current_parking_space first_frame_done = []"
  "\<not> debug_mode first_frame_done" "\<not> edit_mode first_frame_done"
  "\<not> delete_mode first_frame_done"
  "occupied_time_tracking first_frame_done 1 =
     Some \<lparr>occupied_start_time = 43, total_occupied_time = 0\<rparr>"
  by (simp_all add: first_frame_done_def initial_globals_def check_parking_spaces_def
        classify_space_def space_overlap_def example_cv2_def polygon_area_def
        bbox_overlap_def py_int_def default_settings_def two_slots_def both_boxes_def
        square_def)

lemma new_slot_overlaps:
  "space_overlap example_cv2 True [2, 67] [(40, 0, 50, 10, 9/10, 2)] new_slot = (1, Some 2)"
  "space_overlap example_cv2 True [2, 67] [(40, 0, 50, 10, 9/10, 2)] square = (0, None)"
  by (simp_all add: space_overlap_def example_cv2_def polygon_area_def square_def
        bbox_overlap_def py_int_def new_slot_def)

lemma new_slot_frames_states:
  "fst (run_frames example_cv2 [square, new_slot] [2, 67] default_settings new_slot_frames
          (first_frame_done\<lparr>parking_spaces := [square, new_slot]\<rparr>)) =
     [ [Free, Occupied], [Free, Occupied], [Free, Occupied] ]"
  using new_slot_overlaps
  by (simp add: new_slot_frames_def check_parking_spaces_def classify_space_def
        default_settings_def)





section \<open>The claims\<close>

subsection \<open>Geometry evaluation\<close>




text \<open>
  Claim C7, as amended. Among the boxes that take part (tracked class or universal
  detection, intersection not raising), a box replaces the running best only if its ratio
  is strictly greater; the running best starts at ratio 0 with no class. So if no
  participating box has a positive ratio the result is ratio 0 and no class; otherwise the
  result is the ratio and class of the first box in detection order whose ratio is the
  largest, and such a box exists.
\<close>

theorem best_box_selection:
  "((\<forall>d \<in> set dets. \<forall>r. box_ratio lib universal tracked pts (contourArea lib pts) d = Some r
        \<longrightarrow> r \<le> 0) \<longrightarrow>
      space_overlap lib universal tracked dets pts = (0, None)) \<and>
   (j < length dets \<and>
    box_ratio lib universal tracked pts (contourArea lib pts) (dets ! j) = Some rj \<and> 0 < rj \<and>
    (\<forall>i<length dets. \<forall>r.
        box_ratio lib universal tracked pts (contourArea lib pts) (dets ! i) = Some r \<longrightarrow> r \<le> rj) \<and>
    (\<forall>i<j. \<forall>r.
        box_ratio lib universal tracked pts (contourArea lib pts) (dets ! i) = Some r \<longrightarrow> r < rj)
      \<longrightarrow> space_overlap lib universal tracked dets pts = (rj, Some (box_class (dets ! j)))) \<and>
   ((\<exists>d \<in> set dets. \<exists>r.
        box_ratio lib universal tracked pts (contourArea lib pts) d = Some r \<and> 0 < r) \<longrightarrow>
      (\<exists>k rk. k < length dets \<and>
         box_ratio lib universal tracked pts (contourArea lib pts) (dets ! k) = Some rk \<and> 0 < rk \<and>
         (\<forall>i<length dets. \<forall>r.
            box_ratio lib universal tracked pts (contourArea lib pts) (dets ! i) = Some r \<longrightarrow> r \<le> rk) \<and>
         (\<forall>i<k. \<forall>r.
            box_ratio lib universal tracked pts (contourArea lib pts) (dets ! i) = Some r \<longrightarrow> r < rk) \<and>
         space_overlap lib universal tracked dets pts = (rk, Some (box_class (dets ! k))))) \<and>
   box_ratio lib universal tracked pts a d =
     (if \<not> universal \<and> box_class d \<notin> set tracked then None
      else (case intersectConvexConvex lib pts (obj_rect d) of
              None \<Rightarrow> None
            | Some overlap \<Rightarrow> Some (if a > 0 then overlap / a else 0)))"
proof (intro conjI impI)
  let ?A = "contourArea lib pts"
  {
    assume "\<forall>d \<in> set dets. \<forall>r. box_ratio lib universal tracked pts ?A d = Some r \<longrightarrow> r \<le> 0"
    from best_overlap_keep[OF this]
    show "space_overlap lib universal tracked dets pts = (0, None)"
      by (simp add: space_overlap_def)
  }
  {
    assume h: "j < length dets \<and>
      box_ratio lib universal tracked pts ?A (dets ! j) = Some rj \<and> 0 < rj \<and>
      (\<forall>i<length dets. \<forall>r. box_ratio lib universal tracked pts ?A (dets ! i) = Some r \<longrightarrow> r \<le> rj) \<and>
      (\<forall>i<j. \<forall>r. box_ratio lib universal tracked pts ?A (dets ! i) = Some r \<longrightarrow> r < rj)"
    then show "space_overlap lib universal tracked dets pts = (rj, Some (box_class (dets ! j)))"
      using best_overlap_pick[of j dets lib universal tracked pts ?A rj 0 None]
      by (simp add: space_overlap_def)
  }
  {
    assume "\<exists>d \<in> set dets. \<exists>r. box_ratio lib universal tracked pts ?A d = Some r \<and> 0 < r"
    from first_best_exists[OF this] obtain k rk where k: "k < length dets"
      "box_ratio lib universal tracked pts ?A (dets ! k) = Some rk" "0 < rk"
      "\<forall>i<length dets. \<forall>r. box_ratio lib universal tracked pts ?A (dets ! i) = Some r \<longrightarrow> r \<le> rk"
      "\<forall>i<k. \<forall>r. box_ratio lib universal tracked pts ?A (dets ! i) = Some r \<longrightarrow> r < rk"
      by blast
    then have "space_overlap lib universal tracked dets pts = (rk, Some (box_class (dets ! k)))"
      using best_overlap_pick[of k dets lib universal tracked pts ?A rk 0 None]
      by (simp add: space_overlap_def)
    then show "\<exists>k rk. k < length dets \<and>
         box_ratio lib universal tracked pts ?A (dets ! k) = Some rk \<and> 0 < rk \<and>
         (\<forall>i<length dets. \<forall>r. box_ratio lib universal tracked pts ?A (dets ! i) = Some r \<longrightarrow> r \<le> rk) \<and>
         (\<forall>i<k. \<forall>r. box_ratio lib universal tracked pts ?A (dets ! i) = Some r \<longrightarrow> r < rk) \<and>
         space_overlap lib universal tracked dets pts = (rk, Some (box_class (dets ! k)))"
      using k by blast
  }
  show "box_ratio lib universal tracked pts a d =
     (if \<not> universal \<and> box_class d \<notin> set tracked then None
      else (case intersectConvexConvex lib pts (obj_rect d) of
              None \<Rightarrow> None
            | Some overlap \<Rightarrow> Some (if a > 0 then overlap / a else 0)))"
    by (rule box_ratio_alt)
qed

theorem best_box_selection_witness:
  "space_overlap example_cv2 True [2, 67] tie_boxes square = (1/2, Some 2) \<and>
   space_overlap example_cv2 True [2, 67] far_box square = (0, None) \<and>
   (\<exists>k rk. k < length tie_boxes \<and>
      space_overlap example_cv2 True [2, 67] tie_boxes square = (rk, Some (box_class (tie_boxes ! k))))"
proof -
  have l: "length tie_boxes = 2" "length far_box = 1" "(0::nat) < 2"
    by (simp_all add: tie_boxes_def far_box_def)
  have all: "\<forall>i<length tie_boxes. \<forall>r.
      box_ratio example_cv2 True [2, 67] square (contourArea example_cv2 square) (tie_boxes ! i) = Some r
        \<longrightarrow> r \<le> 1/2"
    using tie_boxes_ratios l by (auto simp: less_Suc_eq numeral_2_eq_2)
  have none: "\<forall>d \<in> set far_box. \<forall>r.
      box_ratio example_cv2 True [2, 67] square (contourArea example_cv2 square) d = Some r \<longrightarrow> r \<le> 0"
    using tie_boxes_ratios(3) by (simp add: far_box_def)
  have ex: "\<exists>d \<in> set tie_boxes. \<exists>r.
      box_ratio example_cv2 True [2, 67] square (contourArea example_cv2 square) d = Some r \<and> 0 < r"
  proof -
    have "tie_boxes ! 0 \<in> set tie_boxes" by (simp add: tie_boxes_def)
    moreover have "(0::real) < 1/2" by simp
    ultimately show ?thesis using tie_boxes_ratios(1) by blast
  qed
  have one: "space_overlap example_cv2 True [2, 67] tie_boxes square = (1/2, Some 2)"
    using best_box_selection[of tie_boxes example_cv2 True "[2, 67]" square 0 "1/2"]
      tie_boxes_ratios all l by simp
  have two: "space_overlap example_cv2 True [2, 67] far_box square = (0, None)"
    using best_box_selection[of far_box example_cv2 True "[2, 67]" square] none by simp
  have three: "\<exists>k rk. k < length tie_boxes \<and>
      space_overlap example_cv2 True [2, 67] tie_boxes square = (rk, Some (box_class (tie_boxes ! k)))"
    using best_box_selection[of tie_boxes example_cv2 True "[2, 67]" square] ex by blast
  show ?thesis using one two three by blast
qed

text \<open>
  The claim as stated fails for a box without overlap: the only box of the frame has the
  largest ratio, 0, and class 2, and the result carries no class.
\<close>

theorem best_box_zero_overlap:
  "box_ratio example_cv2 True [2, 67] square (contourArea example_cv2 square)
     (20, 20, 30, 30, 9/10, 2) = Some 0 \<and>
   box_class (20, 20, 30, 30, 9/10, 2) = 2 \<and>
   space_overlap example_cv2 True [2, 67] [(20, 20, 30, 30, 9/10, 2)] square = (0, None) \<and>
   snd (space_overlap example_cv2 True [2, 67] [(20, 20, 30, 30, 9/10, 2)] square) \<noteq>
     Some (box_class (20, 20, 30, 30, 9/10, 2))"
  by (simp add: box_ratio_def box_class_def space_overlap_def example_cv2_def polygon_area_def
        bbox_overlap_def square_def py_int_def)

subsection \<open>Flicker filter\<close>

text \<open>
  Claim C5, as amended. \<open>check_frequent_detections\<close> appends \<open>now\<close> to the history of
  the index, keeps exactly the entries strictly newer than \<open>now - window\<close> (an entry
  equal to \<open>now - window\<close> is discarded, and with a window of 0 so is \<open>now\<close> itself),
  stores the kept list and returns whether its length is at least the threshold. It runs
  only for a slot whose best ratio is in the uncertainty band: after a frame the history of
  a slot index is that kept list when the ratio is in the band and is absent otherwise,
  the state is Frequent\_detection exactly when the ratio is in the band and the filter
  returns true, and indices beyond the slot list keep their history. If every frame of a
  run has the slot in the band, the clock readings do not decrease, the first is strictly
  newer than the last minus the window and the threshold is at most the number of frames
  (ten frames with threshold 10, say), the last frame's state is Frequent\_detection.
\<close>

theorem frequent_detections_window:
  "check_frequent_detections i now threshold window g =
     (threshold \<le> int (length (filter (\<lambda>t. now - window < t)
         ((case detection_history g i of None \<Rightarrow> [] | Some h \<Rightarrow> h) @ [now]))),
      g\<lparr>detection_history := (detection_history g)(i \<mapsto>
         filter (\<lambda>t. now - window < t)
           ((case detection_history g i of None \<Rightarrow> [] | Some h \<Rightarrow> h) @ [now]))\<rparr>) \<and>
   (i < length spaces \<longrightarrow>
      detection_history (snd (check_parking_spaces lib now spaces dets tr cfg g)) i =
        (if in_band cfg (fst (space_overlap lib (universal_detection cfg) tr dets (spaces ! i)))
         then Some (filter (\<lambda>t. now - frequent_detection_window cfg < t)
                 ((case detection_history g i of None \<Rightarrow> [] | Some h \<Rightarrow> h) @ [now]))
         else None) \<and>
      (fst (check_parking_spaces lib now spaces dets tr cfg g) ! i = Frequent_detection \<longleftrightarrow>
         in_band cfg (fst (space_overlap lib (universal_detection cfg) tr dets (spaces ! i))) \<and>
         fst (check_frequent_detections i now (frequent_detection_threshold cfg)
                (frequent_detection_window cfg) g))) \<and>
   (length spaces \<le> j \<longrightarrow>
      detection_history (snd (check_parking_spaces lib now spaces dets tr cfg g)) j =
        detection_history g j) \<and>
   (i < length spaces \<and> frames \<noteq> [] \<and>
    (\<forall>fr \<in> set frames.
       in_band cfg (fst (space_overlap lib (universal_detection cfg) tr (snd fr) (spaces ! i)))) \<and>
    sorted (map fst frames) \<and>
    fst (last frames) - frequent_detection_window cfg < fst (hd frames) \<and>
    frequent_detection_threshold cfg \<le> int (length frames) \<longrightarrow>
      last (fst (run_frames lib spaces tr cfg frames g)) ! i = Frequent_detection)"
proof (intro conjI impI)
  show "check_frequent_detections i now threshold window g =
     (threshold \<le> int (length (filter (\<lambda>t. now - window < t)
         ((case detection_history g i of None \<Rightarrow> [] | Some h \<Rightarrow> h) @ [now]))),
      g\<lparr>detection_history := (detection_history g)(i \<mapsto>
         filter (\<lambda>t. now - window < t)
           ((case detection_history g i of None \<Rightarrow> [] | Some h \<Rightarrow> h) @ [now]))\<rparr>)"
    by (simp add: check_frequent_detections_def Let_def)
next
  let ?c = "check_parking_spaces lib now spaces dets tr cfg g"
  have p: "?c = (fst ?c, snd ?c)" by simp
  {
    assume i: "i < length spaces"
    obtain r c where b: "space_overlap lib (universal_detection cfg) tr dets (spaces ! i) = (r, c)"
      by (cases "space_overlap lib (universal_detection cfg) tr dets (spaces ! i)")
    have rec: "records_of (snd ?c) i = snd (slot_step cfg now (r, c) (records_of g i))"
      and st: "fst ?c ! i = fst (slot_step cfg now (r, c) (records_of g i))"
      using check_parking_spaces_records(2,3)[OF p i] b by simp_all
    have "detection_history (snd ?c) i = snd (snd (snd (records_of (snd ?c) i)))"
      by (simp add: records_of_def)
    also have "\<dots> = snd (snd (snd (snd (slot_step cfg now (r, c) (records_of g i)))))"
      by (simp only: rec)
    also have "\<dots> = (if in_band cfg r then Some (kept_history cfg now (detection_history g i)) else None)"
      using slot_step_history[of cfg now r c "uncertainty_tracking g i" "free_time_tracking g i"
          "occupied_time_tracking g i" "detection_history g i"]
      by (simp add: records_of_def)
    finally show "detection_history (snd ?c) i =
        (if in_band cfg (fst (space_overlap lib (universal_detection cfg) tr dets (spaces ! i)))
         then Some (filter (\<lambda>t. now - frequent_detection_window cfg < t)
                 ((case detection_history g i of None \<Rightarrow> [] | Some h \<Rightarrow> h) @ [now]))
         else None)"
      using b by (simp add: kept_history_def)
    show "fst ?c ! i = Frequent_detection \<longleftrightarrow>
         in_band cfg (fst (space_overlap lib (universal_detection cfg) tr dets (spaces ! i))) \<and>
         fst (check_frequent_detections i now (frequent_detection_threshold cfg)
                (frequent_detection_window cfg) g)"
      using st b slot_step_Frequent_iff[of cfg now r c "uncertainty_tracking g i"
          "free_time_tracking g i" "occupied_time_tracking g i" "detection_history g i"]
      by (simp add: records_of_def check_frequent_detections_def kept_history_def Let_def)
  }
  {
    assume "length spaces \<le> j"
    from check_parking_spaces_records(4)[OF p this]
    show "detection_history (snd ?c) j = detection_history g j"
      by (simp add: records_of_def)
  }
next
  assume a: "i < length spaces \<and> frames \<noteq> [] \<and>
    (\<forall>fr \<in> set frames.
       in_band cfg (fst (space_overlap lib (universal_detection cfg) tr (snd fr) (spaces ! i)))) \<and>
    sorted (map fst frames) \<and>
    fst (last frames) - frequent_detection_window cfg < fst (hd frames) \<and>
    frequent_detection_threshold cfg \<le> int (length frames)"
  let ?r = "run_frames lib spaces tr cfg frames g"
  let ?rs = "map (\<lambda>(t, d). (t, space_overlap lib (universal_detection cfg) tr d (spaces ! i))) frames"
  have p: "?r = (fst ?r, snd ?r)" by simp
  have i: "i < length spaces" and ne: "frames \<noteq> []" using a by simp_all
  note rr = run_frames_records[OF i p]
  have band: "\<forall>x \<in> set ?rs. in_band cfg (fst (snd x))" using a by (auto simp: split_beta)
  have so: "sorted (map fst ?rs)"
  proof -
    have "fst \<circ> (\<lambda>(t, d). (t, space_overlap lib (universal_detection cfg) tr d (spaces ! i)))
            = (fst :: real \<times> detection list \<Rightarrow> real)"
      by (rule ext) (simp add: split_beta)
    then have "map fst ?rs = map fst frames" by simp
    then show ?thesis using a by (simp only:)
  qed
  have ne': "?rs \<noteq> []" using ne by simp
  have l: "fst (last ?rs) = fst (last frames)" "fst (hd ?rs) = fst (hd frames)"
    using ne by (simp_all add: last_map hd_map split_beta)
  have win: "fst (last ?rs) - frequent_detection_window cfg < fst (hd ?rs)"
    using a l by simp
  have len: "frequent_detection_threshold cfg \<le> int (length ?rs)" using a by simp
  have fr: "last (fst (slot_run cfg ?rs (records_of g i))) = Frequent_detection"
    by (rule band_run_frequent[OF band so ne' win len])
  have nes: "fst ?r \<noteq> []"
    using run_frames_length[OF p] ne by auto
  have "last (fst ?r) ! i = last (map (\<lambda>sts. sts ! i) (fst ?r))"
    using nes by (simp add: last_map)
  also have "\<dots> = Frequent_detection" using rr fr by simp
  finally show "last (fst ?r) ! i = Frequent_detection" .
qed

theorem frequent_detections_window_witness:
  "last (fst (run_frames example_cv2 [square] [2, 67] default_settings ten_frames
                initial_globals)) ! 0 = Frequent_detection \<and>
   detection_history
     (snd (check_parking_spaces example_cv2 100 [square] box04 [2, 67] default_settings
             (initial_globals\<lparr>detection_history := [0 \<mapsto> [90, 95] ]\<rparr>))) 0 = Some [95, 100] \<and>
   detection_history
     (snd (check_parking_spaces example_cv2 100 [square] box10 [2, 67] default_settings
             (initial_globals\<lparr>detection_history := [0 \<mapsto> [90, 95], 3 \<mapsto> [1] ]\<rparr>))) 0 = None \<and>
   detection_history
     (snd (check_parking_spaces example_cv2 100 [square] box10 [2, 67] default_settings
             (initial_globals\<lparr>detection_history := [0 \<mapsto> [90, 95], 3 \<mapsto> [1] ]\<rparr>))) 3 = Some [1]"
proof -
  have cfg: "universal_detection default_settings = True"
    "frequent_detection_threshold default_settings = 10"
    "frequent_detection_window default_settings = 10"
    by (simp_all add: default_settings_def)
  have band: "in_band default_settings (4/10)" "\<not> in_band default_settings 1"
    by (simp_all add: in_band_def default_settings_def)
  have all: "\<forall>fr \<in> set ten_frames.
       in_band default_settings
         (fst (space_overlap example_cv2 (universal_detection default_settings) [2, 67] (snd fr)
                 ([square] ! 0)))"
    using square_overlaps band cfg by (simp add: ten_frames_def)
  have fs: "ten_frames \<noteq> []" "sorted (map fst ten_frames)"
    "fst (last ten_frames) - frequent_detection_window default_settings < fst (hd ten_frames)"
    "frequent_detection_threshold default_settings \<le> int (length ten_frames)"
    by (simp_all add: ten_frames_def default_settings_def)
  have h: "detection_history (initial_globals\<lparr>detection_history := [0 \<mapsto> [90, 95] ]\<rparr>) 0 = Some [90, 95]"
    "detection_history (initial_globals\<lparr>detection_history := [0 \<mapsto> [90, 95], 3 \<mapsto> [1] ]\<rparr>) 3 = Some [1]"
    by simp_all
  from frequent_detections_window[of 0 100 10 10 initial_globals "[square]" example_cv2 box04
      "[2, 67]" default_settings 3 ten_frames]
    frequent_detections_window[of 0 100 10 10 "initial_globals\<lparr>detection_history := [0 \<mapsto> [90, 95] ]\<rparr>"
      "[square]" example_cv2 box04 "[2, 67]" default_settings 3 ten_frames]
    frequent_detections_window[of 0 100 10 10
      "initial_globals\<lparr>detection_history := [0 \<mapsto> [90, 95], 3 \<mapsto> [1] ]\<rparr>"
      "[square]" example_cv2 box10 "[2, 67]" default_settings 3 ten_frames]
    all fs h square_overlaps band cfg
  show ?thesis by simp
qed

text \<open>
  The claim as stated fails at the boundary: with the history \<open>[0]\<close>, \<open>now = 10\<close>,
  a window of 10 and a threshold of 2, the entry 0 is not older than \<open>now - window\<close>, so
  the specification's wording keeps it and answers true, while the code drops it, keeps
  \<open>[10]\<close> and answers false; with a window of 0 the code drops the entry it has just
  appended.
\<close>

theorem frequent_detections_boundary:
  "\<not> fst (check_frequent_detections 0 10 2 10
            (initial_globals\<lparr>detection_history := [0 \<mapsto> [0] ]\<rparr>)) \<and>
   detection_history (snd (check_frequent_detections 0 10 2 10
            (initial_globals\<lparr>detection_history := [0 \<mapsto> [0] ]\<rparr>))) 0 = Some [10] \<and>
   spec_is_frequent [0] 10 2 10 \<and>
   \<not> fst (check_frequent_detections 0 5 1 0 initial_globals) \<and>
   detection_history (snd (check_frequent_detections 0 5 1 0 initial_globals)) 0 = Some [] \<and>
   spec_is_frequent [] 5 1 0"
  by (simp add: check_frequent_detections_def spec_is_frequent_def initial_globals_def)

subsection \<open>Slot state machine\<close>

text \<open>
  Claim C1. For a slot whose best overlap ratio \<open>r\<close> is in the uncertainty band
  (\<open>uncertainty_threshold \<le> r < occupancy_threshold\<close>): the flicker filter is evaluated
  on the state the frame started with and this frame's clock reading, and if it returns
  true the state is Frequent\_detection; otherwise the state is Uncertain when the index
  has no uncertainty record, and with a record it is Uncertain\_occupied if
  \<open>now - start_time \<ge> uncertainty_time_threshold\<close> and Uncertain if not. A missing record
  is opened with \<open>start_time = now\<close>; an existing one keeps its start time and gets the
  new ratio and class. The ratios 0.1, 0.4, 0.4, 0.4, 0.4 at one-second intervals, with a
  dwell threshold of 3 seconds, thresholds that put 0.1 below and 0.4 inside the band and
  a flicker threshold above 4 (the default is 10), give Free, Uncertain, Uncertain,
  Uncertain, Uncertain\_occupied, from any starting state.
\<close>

theorem uncertainty_band_step:
  "(i < length spaces \<and>
    space_overlap lib (universal_detection cfg) tr dets (spaces ! i) = (r, c) \<and>
    uncertainty_threshold cfg \<le> r \<and> r < occupancy_threshold cfg \<longrightarrow>
      fst (check_parking_spaces lib now spaces dets tr cfg g) ! i =
        (if fst (check_frequent_detections i now (frequent_detection_threshold cfg)
                   (frequent_detection_window cfg) g)
         then Frequent_detection
         else (case uncertainty_tracking g i of
                 None \<Rightarrow> Uncertain
               | Some e \<Rightarrow> if now - start_time e \<ge> uncertainty_time_threshold cfg
                          then Uncertain_occupied else Uncertain)) \<and>
      uncertainty_tracking (snd (check_parking_spaces lib now spaces dets tr cfg g)) i =
        Some (case uncertainty_tracking g i of
                None \<Rightarrow> \<lparr>start_time = now, last_area = r, object_class = c\<rparr>
              | Some e \<Rightarrow> e\<lparr>last_area := r, object_class := c\<rparr>)) \<and>
   (i < length spaces \<and>
    1/10 < uncertainty_threshold cfg \<and> uncertainty_threshold cfg \<le> 4/10 \<and>
    4/10 < occupancy_threshold cfg \<and> uncertainty_time_threshold cfg = 3 \<and>
    4 < frequent_detection_threshold cfg \<and>
    fst (space_overlap lib (universal_detection cfg) tr d0 (spaces ! i)) = 1/10 \<and>
    fst (space_overlap lib (universal_detection cfg) tr d1 (spaces ! i)) = 4/10 \<and>
    fst (space_overlap lib (universal_detection cfg) tr d2 (spaces ! i)) = 4/10 \<and>
    fst (space_overlap lib (universal_detection cfg) tr d3 (spaces ! i)) = 4/10 \<and>
    fst (space_overlap lib (universal_detection cfg) tr d4 (spaces ! i)) = 4/10 \<longrightarrow>
      map (\<lambda>sts. sts ! i)
        (fst (run_frames lib spaces tr cfg
                [(t, d0), (t + 1, d1), (t + 2, d2), (t + 3, d3), (t + 4, d4)] g)) =
      [Free, Uncertain, Uncertain, Uncertain, Uncertain_occupied])"
proof (intro conjI impI)
  assume a: "i < length spaces \<and>
    space_overlap lib (universal_detection cfg) tr dets (spaces ! i) = (r, c) \<and>
    uncertainty_threshold cfg \<le> r \<and> r < occupancy_threshold cfg"
  let ?c = "check_parking_spaces lib now spaces dets tr cfg g"
  have p: "?c = (fst ?c, snd ?c)" by simp
  have i: "i < length spaces" using a by simp
  have band: "uncertainty_threshold cfg \<le> r" "r < occupancy_threshold cfg" using a by simp_all
  have st: "fst ?c ! i = fst (slot_step cfg now (r, c) (records_of g i))"
    and rec: "records_of (snd ?c) i = snd (slot_step cfg now (r, c) (records_of g i))"
    using check_parking_spaces_records(2,3)[OF p i] a by simp_all
  have fr: "fst (check_frequent_detections i now (frequent_detection_threshold cfg)
                   (frequent_detection_window cfg) g) =
            (frequent_detection_threshold cfg \<le> int (length (kept_history cfg now (detection_history g i))))"
    by (simp add: check_frequent_detections_def kept_history_def Let_def)
  show "fst ?c ! i =
        (if fst (check_frequent_detections i now (frequent_detection_threshold cfg)
                   (frequent_detection_window cfg) g)
         then Frequent_detection
         else (case uncertainty_tracking g i of
                 None \<Rightarrow> Uncertain
               | Some e \<Rightarrow> if now - start_time e \<ge> uncertainty_time_threshold cfg
                          then Uncertain_occupied else Uncertain))"
    using st slot_step_band[OF band, of now c "uncertainty_tracking g i" "free_time_tracking g i"
        "occupied_time_tracking g i" "detection_history g i"] fr
    by (simp add: records_of_def)
  show "uncertainty_tracking (snd ?c) i =
        Some (case uncertainty_tracking g i of
                None \<Rightarrow> \<lparr>start_time = now, last_area = r, object_class = c\<rparr>
              | Some e \<Rightarrow> e\<lparr>last_area := r, object_class := c\<rparr>)"
    using rec slot_step_band[OF band, of now c "uncertainty_tracking g i" "free_time_tracking g i"
        "occupied_time_tracking g i" "detection_history g i"]
    by (simp add: records_of_def)
next
  assume a: "i < length spaces \<and>
    1/10 < uncertainty_threshold cfg \<and> uncertainty_threshold cfg \<le> 4/10 \<and>
    4/10 < occupancy_threshold cfg \<and> uncertainty_time_threshold cfg = 3 \<and>
    4 < frequent_detection_threshold cfg \<and>
    fst (space_overlap lib (universal_detection cfg) tr d0 (spaces ! i)) = 1/10 \<and>
    fst (space_overlap lib (universal_detection cfg) tr d1 (spaces ! i)) = 4/10 \<and>
    fst (space_overlap lib (universal_detection cfg) tr d2 (spaces ! i)) = 4/10 \<and>
    fst (space_overlap lib (universal_detection cfg) tr d3 (spaces ! i)) = 4/10 \<and>
    fst (space_overlap lib (universal_detection cfg) tr d4 (spaces ! i)) = 4/10"
  let ?fs = "[(t, d0), (t + 1, d1), (t + 2, d2), (t + 3, d3), (t + 4, d4)]"
  let ?r = "run_frames lib spaces tr cfg ?fs g"
  have p: "?r = (fst ?r, snd ?r)" by simp
  have i: "i < length spaces" using a by simp
  obtain c0 c1 c2 c3 c4 where b:
    "space_overlap lib (universal_detection cfg) tr d0 (spaces ! i) = (1/10, c0)"
    "space_overlap lib (universal_detection cfg) tr d1 (spaces ! i) = (4/10, c1)"
    "space_overlap lib (universal_detection cfg) tr d2 (spaces ! i) = (4/10, c2)"
    "space_overlap lib (universal_detection cfg) tr d3 (spaces ! i) = (4/10, c3)"
    "space_overlap lib (universal_detection cfg) tr d4 (spaces ! i) = (4/10, c4)"
    using a by (metis prod.collapse)
  have "map (\<lambda>sts. sts ! i) (fst ?r) =
      fst (slot_run cfg [(t, (1/10, c0)), (t + 1, (4/10, c1)), (t + 2, (4/10, c2)),
                            (t + 3, (4/10, c3)), (t + 4, (4/10, c4))] (records_of g i))"
    using run_frames_records[OF i p] b by simp
  also have "\<dots> = [Free, Uncertain, Uncertain, Uncertain, Uncertain_occupied]"
    using dwell_example[of cfg t c0 c1 c2 c3 c4 "records_of g i"] a by simp
  finally show "map (\<lambda>sts. sts ! i) (fst ?r) =
      [Free, Uncertain, Uncertain, Uncertain, Uncertain_occupied]" .
qed

theorem uncertainty_band_step_witness:
  "fst (check_parking_spaces example_cv2 100 [square] box04 [2, 67] default_settings dwelling) ! 0
     = Uncertain_occupied \<and>
   uncertainty_tracking
     (snd (check_parking_spaces example_cv2 100 [square] box04 [2, 67] default_settings dwelling)) 0
     = Some \<lparr>start_time = 97, last_area = 4/10, object_class = Some 2\<rparr> \<and>
   fst (check_parking_spaces example_cv2 100 [square] box04 [2, 67] default_settings
          initial_globals) ! 0 = Uncertain \<and>
   uncertainty_tracking
     (snd (check_parking_spaces example_cv2 100 [square] box04 [2, 67] default_settings
             initial_globals)) 0
     = Some \<lparr>start_time = 100, last_area = 4/10, object_class = Some 2\<rparr> \<and>
   map (\<lambda>sts. sts ! 0)
     (fst (run_frames example_cv2 [square] [2, 67] default_settings
             [(100, box01), (100 + 1, box04), (100 + 2, box04), (100 + 3, box04),
              (100 + 4, box04)] initial_globals)) =
     [Free, Uncertain, Uncertain, Uncertain, Uncertain_occupied]"
proof -
  have cfg: "universal_detection default_settings = True"
    "uncertainty_threshold default_settings = 3/10"
    "occupancy_threshold default_settings = 6/10"
    "uncertainty_time_threshold default_settings = 3"
    "frequent_detection_threshold default_settings = 10"
    "frequent_detection_window default_settings = 10"
    by (simp_all add: default_settings_def)
  have f1: "\<not> fst (check_frequent_detections 0 100 10 10 dwelling)"
    and f2: "\<not> fst (check_frequent_detections 0 100 10 10 initial_globals)"
    by (simp_all add: check_frequent_detections_def dwelling_def initial_globals_def)
  have u: "uncertainty_tracking dwelling 0 =
      Some \<lparr>start_time = 97, last_area = 35/100, object_class = Some 2\<rparr>"
    "uncertainty_tracking initial_globals 0 = None"
    by (simp_all add: dwelling_def initial_globals_def)
  from uncertainty_band_step[of 0 "[square]" example_cv2 default_settings "[2, 67]" box04
      "4/10" "Some 2" 100 dwelling box01 box04 box04 box04 box04 100]
    uncertainty_band_step[of 0 "[square]" example_cv2 default_settings "[2, 67]" box04
      "4/10" "Some 2" 100 initial_globals box01 box04 box04 box04 box04 100]
    cfg f1 f2 u square_overlaps
  show ?thesis by simp
qed

text \<open>
  Claim C2. After a call of \<open>check_parking_spaces\<close>, every slot index \<open>i\<close> of the slot
  list has exactly the record of the band it was just classified into and none of the
  other two: the occupied-time record when the state is Occupied (best ratio at least the
  occupancy threshold), the free-time record when it is Free (ratio below both
  thresholds), the uncertainty record when it is Uncertain, Uncertain\_occupied or
  Frequent\_detection (ratio in the uncertainty band). The detection history of the index
  is cleared when the state is Free or Occupied. Indices beyond the slot list are not
  touched, so if no index had two records before the call, none has afterwards.
\<close>

theorem one_record_per_slot:
  assumes "check_parking_spaces lib now spaces dets tr cfg g = (sts, g')"
  shows "(i < length spaces \<longrightarrow>
            (sts ! i = Occupied \<longleftrightarrow>
               occupancy_threshold cfg \<le>
                 fst (space_overlap lib (universal_detection cfg) tr dets (spaces ! i))) \<and>
            (sts ! i = Free \<longleftrightarrow>
               fst (space_overlap lib (universal_detection cfg) tr dets (spaces ! i))
                 < occupancy_threshold cfg \<and>
               fst (space_overlap lib (universal_detection cfg) tr dets (spaces ! i))
                 < uncertainty_threshold cfg) \<and>
            (sts ! i \<in> {Uncertain, Uncertain_occupied, Frequent_detection} \<longleftrightarrow>
               uncertainty_threshold cfg \<le>
                 fst (space_overlap lib (universal_detection cfg) tr dets (spaces ! i)) \<and>
               fst (space_overlap lib (universal_detection cfg) tr dets (spaces ! i))
                 < occupancy_threshold cfg) \<and>
            (sts ! i = Occupied \<longrightarrow>
               occupied_time_tracking g' i \<noteq> None \<and> uncertainty_tracking g' i = None \<and>
               free_time_tracking g' i = None \<and> detection_history g' i = None) \<and>
            (sts ! i = Free \<longrightarrow>
               free_time_tracking g' i \<noteq> None \<and> uncertainty_tracking g' i = None \<and>
               occupied_time_tracking g' i = None \<and> detection_history g' i = None) \<and>
            (sts ! i \<in> {Uncertain, Uncertain_occupied, Frequent_detection} \<longrightarrow>
               uncertainty_tracking g' i \<noteq> None \<and> free_time_tracking g' i = None \<and>
               occupied_time_tracking g' i = None) \<and>
            exclusive_records g' i) \<and>
         ((\<forall>j. exclusive_records g j) \<longrightarrow> (\<forall>j. exclusive_records g' j))"
proof -
  have local: "i < length spaces \<Longrightarrow>
      slot_step cfg now (space_overlap lib (universal_detection cfg) tr dets (spaces ! i))
        (records_of g i) = (sts ! i, records_of g' i)" for i
    using check_parking_spaces_records(2,3)[OF assms, of i] by (simp add: prod_eq_iff)
  have shape: "i < length spaces \<Longrightarrow>
       (sts ! i = Occupied \<longleftrightarrow>
               occupancy_threshold cfg \<le>
                 fst (space_overlap lib (universal_detection cfg) tr dets (spaces ! i))) \<and>
            (sts ! i = Free \<longleftrightarrow>
               fst (space_overlap lib (universal_detection cfg) tr dets (spaces ! i))
                 < occupancy_threshold cfg \<and>
               fst (space_overlap lib (universal_detection cfg) tr dets (spaces ! i))
                 < uncertainty_threshold cfg) \<and>
            (sts ! i \<in> {Uncertain, Uncertain_occupied, Frequent_detection} \<longleftrightarrow>
               uncertainty_threshold cfg \<le>
                 fst (space_overlap lib (universal_detection cfg) tr dets (spaces ! i)) \<and>
               fst (space_overlap lib (universal_detection cfg) tr dets (spaces ! i))
                 < occupancy_threshold cfg) \<and>
            (sts ! i = Occupied \<longrightarrow>
               occupied_time_tracking g' i \<noteq> None \<and> uncertainty_tracking g' i = None \<and>
               free_time_tracking g' i = None \<and> detection_history g' i = None) \<and>
            (sts ! i = Free \<longrightarrow>
               free_time_tracking g' i \<noteq> None \<and> uncertainty_tracking g' i = None \<and>
               occupied_time_tracking g' i = None \<and> detection_history g' i = None) \<and>
            (sts ! i \<in> {Uncertain, Uncertain_occupied, Frequent_detection} \<longrightarrow>
               uncertainty_tracking g' i \<noteq> None \<and> free_time_tracking g' i = None \<and>
               occupied_time_tracking g' i = None \<and> detection_history g' i \<noteq> None)" for i
  proof -
    assume i: "i < length spaces"
    obtain r c where b: "space_overlap lib (universal_detection cfg) tr dets (spaces ! i) = (r, c)"
      by (cases "space_overlap lib (universal_detection cfg) tr dets (spaces ! i)")
    have "slot_step cfg now (r, c) (records_of g i) =
       (sts ! i, (uncertainty_tracking g' i, free_time_tracking g' i,
                  occupied_time_tracking g' i, detection_history g' i))"
      using local[OF i] b by (simp add: records_of_def)
    from slot_step_shape[OF this] show ?thesis unfolding b fst_conv by blast
  qed
  have excl: "i < length spaces \<Longrightarrow> exclusive_records g' i" for i
    using shape[of i] by (cases "sts ! i") (simp_all add: exclusive_records_def)
  have inv: "(\<forall>j. exclusive_records g j) \<Longrightarrow> exclusive_records g' j" for j
  proof (cases "j < length spaces")
    case True
    then show ?thesis using excl by simp
  next
    case False
    assume a: "\<forall>j. exclusive_records g j"
    have "records_of g' j = records_of g j"
      using check_parking_spaces_records(4)[OF assms, of j] False by simp
    then show ?thesis using a[rule_format, of j]
      by (simp add: records_of_def exclusive_records_def)
  qed
  show ?thesis using shape[of i] excl[of i] inv by blast
qed

theorem one_record_per_slot_witness:
  "fst (check_parking_spaces example_cv2 100 three_slots frame_boxes [2, 67]
          default_settings initial_globals) = [Occupied, Uncertain, Free] \<and>
   occupied_time_tracking (snd (check_parking_spaces example_cv2 100 three_slots frame_boxes
          [2, 67] default_settings initial_globals)) 0 \<noteq> None \<and>
   detection_history (snd (check_parking_spaces example_cv2 100 three_slots frame_boxes
          [2, 67] default_settings initial_globals)) 0 = None \<and>
   uncertainty_tracking (snd (check_parking_spaces example_cv2 100 three_slots frame_boxes
          [2, 67] default_settings initial_globals)) 1 \<noteq> None \<and>
   free_time_tracking (snd (check_parking_spaces example_cv2 100 three_slots frame_boxes
          [2, 67] default_settings initial_globals)) 2 \<noteq> None \<and>
   exclusive_records (snd (check_parking_spaces example_cv2 100 three_slots frame_boxes
          [2, 67] default_settings initial_globals)) 0 \<and>
   exclusive_records (snd (check_parking_spaces example_cv2 100 three_slots frame_boxes
          [2, 67] default_settings initial_globals)) 1 \<and>
   exclusive_records (snd (check_parking_spaces example_cv2 100 three_slots frame_boxes
          [2, 67] default_settings initial_globals)) 2 \<and>
   exclusive_records (snd (check_parking_spaces example_cv2 100 three_slots frame_boxes
          [2, 67] default_settings initial_globals)) 7"
proof -
  let ?c = "check_parking_spaces example_cv2 100 three_slots frame_boxes [2, 67]
          default_settings initial_globals"
  have p: "?c = (fst ?c, snd ?c)" by simp
  have l: "0 < length three_slots" "1 < length three_slots" "2 < length three_slots"
    by (simp_all add: three_slots_def)
  have i: "\<forall>j. exclusive_records initial_globals j"
    by (simp add: exclusive_records_def initial_globals_def)
  from one_record_per_slot[OF p, of 0] one_record_per_slot[OF p, of 1]
    one_record_per_slot[OF p, of 2] l i frame_boxes_states
  show ?thesis by simp
qed

text \<open>
  Claim C6, as amended. Let slot index \<open>i\<close> be classified Occupied in every frame of a
  run. After the first \<open>n\<close> frames its record has the clock reading of frame \<open>n\<close> as
  start time. If no occupied-time record was keyed to \<open>i\<close> when the run began, the total
  is the time between the first and the \<open>n\<close>-th frame, so the displayed duration
  \<open>total + (now - start)\<close> is the time elapsed since the first frame of the run, at any
  \<open>now\<close>. If a record was keyed to \<open>i\<close> already, the run continues it: the total is that
  record's total plus the time from its start to the \<open>n\<close>-th frame, and the displayed
  duration is the one that record gave before the run. In both cases, when the clock
  readings do not decrease, the total after \<open>m \<le> n\<close> frames is at most the total after
  \<open>n\<close> frames. The same holds for a run of Free frames and the free-time record.
\<close>

theorem accrual_closed_form:
  assumes "i < length spaces" "0 < n" "n \<le> length frames"
  shows "((\<forall>sts \<in> set (fst (run_frames lib spaces tr cfg frames g)). sts ! i = Occupied) \<longrightarrow>
            occupied_time_tracking (snd (run_frames lib spaces tr cfg (take n frames) g)) i =
              Some \<lparr>occupied_start_time = fst (frames ! (n - 1)),
                    total_occupied_time =
                      (case occupied_time_tracking g i of
                         None \<Rightarrow> fst (frames ! (n - 1)) - fst (frames ! 0)
                       | Some e \<Rightarrow> total_occupied_time e + (fst (frames ! (n - 1)) - occupied_start_time e))\<rparr> \<and>
            displayed_occupied_time now (snd (run_frames lib spaces tr cfg (take n frames) g)) i =
              Some (case occupied_time_tracking g i of
                      None \<Rightarrow> now - fst (frames ! 0)
                    | Some e \<Rightarrow> total_occupied_time e + (now - occupied_start_time e)) \<and>
            (sorted (map fst frames) \<and> 0 < m \<and> m \<le> n \<longrightarrow>
               (\<exists>e1 e2.
                  occupied_time_tracking (snd (run_frames lib spaces tr cfg (take m frames) g)) i
                    = Some e1 \<and>
                  occupied_time_tracking (snd (run_frames lib spaces tr cfg (take n frames) g)) i
                    = Some e2 \<and>
                  total_occupied_time e1 \<le> total_occupied_time e2))) \<and>
         ((\<forall>sts \<in> set (fst (run_frames lib spaces tr cfg frames g)). sts ! i = Free) \<longrightarrow>
            free_time_tracking (snd (run_frames lib spaces tr cfg (take n frames) g)) i =
              Some \<lparr>free_start_time = fst (frames ! (n - 1)),
                    total_free_time =
                      (case free_time_tracking g i of
                         None \<Rightarrow> fst (frames ! (n - 1)) - fst (frames ! 0)
                       | Some e \<Rightarrow> total_free_time e + (fst (frames ! (n - 1)) - free_start_time e))\<rparr> \<and>
            displayed_free_time now (snd (run_frames lib spaces tr cfg (take n frames) g)) i =
              Some (case free_time_tracking g i of
                      None \<Rightarrow> now - fst (frames ! 0)
                    | Some e \<Rightarrow> total_free_time e + (now - free_start_time e)) \<and>
            (sorted (map fst frames) \<and> 0 < m \<and> m \<le> n \<longrightarrow>
               (\<exists>e1 e2.
                  free_time_tracking (snd (run_frames lib spaces tr cfg (take m frames) g)) i
                    = Some e1 \<and>
                  free_time_tracking (snd (run_frames lib spaces tr cfg (take n frames) g)) i
                    = Some e2 \<and>
                  total_free_time e1 \<le> total_free_time e2)))"
proof -
  have mono: "fst (frames ! (m - 1)) \<le> fst (frames ! (n - 1))"
    if "sorted (map fst frames) \<and> 0 < m \<and> m \<le> n"
  proof -
    have le: "m - 1 \<le> n - 1" using that by arith
    have n: "n - 1 < length frames" using assms(2,3) by arith
    then have m: "m - 1 < length frames" using le by arith
    have "map fst frames ! (m - 1) \<le> map fst frames ! (n - 1)"
      using that sorted_nth_mono[of "map fst frames" "m - 1" "n - 1"] le n by simp
    then show ?thesis using n m by simp
  qed
  have occ: "occupied_time_tracking (snd (run_frames lib spaces tr cfg (take k frames) g)) i =
              Some \<lparr>occupied_start_time = fst (frames ! (k - 1)),
                    total_occupied_time =
                      (case occupied_time_tracking g i of
                         None \<Rightarrow> fst (frames ! (k - 1)) - fst (frames ! 0)
                       | Some e \<Rightarrow> total_occupied_time e + (fst (frames ! (k - 1)) - occupied_start_time e))\<rparr>"
    if a: "\<forall>sts \<in> set (fst (run_frames lib spaces tr cfg frames g)). sts ! i = Occupied"
      and k: "0 < k" "k \<le> length frames" for k
  proof -
    have all: "\<forall>sts \<in> set (fst (run_frames lib spaces tr cfg (take k frames) g)). sts ! i = Occupied"
      using a by (auto simp: run_frames_take dest: in_set_takeD)
    show ?thesis
    proof (cases "occupied_time_tracking g i")
      case None
      from occupied_frames[OF assms(1) take_prefix_facts(1)[OF k] None all]
      show ?thesis using take_prefix_facts(2,3)[OF k] None by simp
    next
      case (Some e)
      from occupied_frames_from[OF assms(1) take_prefix_facts(1)[OF k] Some all]
      show ?thesis using take_prefix_facts(2)[OF k] Some by simp
    qed
  qed
  have fre: "free_time_tracking (snd (run_frames lib spaces tr cfg (take k frames) g)) i =
              Some \<lparr>free_start_time = fst (frames ! (k - 1)),
                    total_free_time =
                      (case free_time_tracking g i of
                         None \<Rightarrow> fst (frames ! (k - 1)) - fst (frames ! 0)
                       | Some e \<Rightarrow> total_free_time e + (fst (frames ! (k - 1)) - free_start_time e))\<rparr>"
    if a: "\<forall>sts \<in> set (fst (run_frames lib spaces tr cfg frames g)). sts ! i = Free"
      and k: "0 < k" "k \<le> length frames" for k
  proof -
    have all: "\<forall>sts \<in> set (fst (run_frames lib spaces tr cfg (take k frames) g)). sts ! i = Free"
      using a by (auto simp: run_frames_take dest: in_set_takeD)
    show ?thesis
    proof (cases "free_time_tracking g i")
      case None
      from free_frames[OF assms(1) take_prefix_facts(1)[OF k] None all]
      show ?thesis using take_prefix_facts(2,3)[OF k] None by simp
    next
      case (Some e)
      from free_frames_from[OF assms(1) take_prefix_facts(1)[OF k] Some all]
      show ?thesis using take_prefix_facts(2)[OF k] Some by simp
    qed
  qed
  show ?thesis
  proof (intro conjI impI)
    assume a: "\<forall>sts \<in> set (fst (run_frames lib spaces tr cfg frames g)). sts ! i = Occupied"
    note n = occ[OF a assms(2,3)]
    show "occupied_time_tracking (snd (run_frames lib spaces tr cfg (take n frames) g)) i =
              Some \<lparr>occupied_start_time = fst (frames ! (n - 1)),
                    total_occupied_time =
                      (case occupied_time_tracking g i of
                         None \<Rightarrow> fst (frames ! (n - 1)) - fst (frames ! 0)
                       | Some e \<Rightarrow> total_occupied_time e + (fst (frames ! (n - 1)) - occupied_start_time e))\<rparr>"
      by (rule n)
    show "displayed_occupied_time now (snd (run_frames lib spaces tr cfg (take n frames) g)) i =
              Some (case occupied_time_tracking g i of
                      None \<Rightarrow> now - fst (frames ! 0)
                    | Some e \<Rightarrow> total_occupied_time e + (now - occupied_start_time e))"
      using n by (simp add: displayed_occupied_time_def split: option.splits)
    assume s: "sorted (map fst frames) \<and> 0 < m \<and> m \<le> n"
    then have "0 < m" "m \<le> length frames" using assms by simp_all
    note m = occ[OF a this]
    show "\<exists>e1 e2.
                  occupied_time_tracking (snd (run_frames lib spaces tr cfg (take m frames) g)) i
                    = Some e1 \<and>
                  occupied_time_tracking (snd (run_frames lib spaces tr cfg (take n frames) g)) i
                    = Some e2 \<and>
                  total_occupied_time e1 \<le> total_occupied_time e2"
      using m n mono[OF s] by (simp split: option.splits)
  next
    assume a: "\<forall>sts \<in> set (fst (run_frames lib spaces tr cfg frames g)). sts ! i = Free"
    note n = fre[OF a assms(2,3)]
    show "free_time_tracking (snd (run_frames lib spaces tr cfg (take n frames) g)) i =
              Some \<lparr>free_start_time = fst (frames ! (n - 1)),
                    total_free_time =
                      (case free_time_tracking g i of
                         None \<Rightarrow> fst (frames ! (n - 1)) - fst (frames ! 0)
                       | Some e \<Rightarrow> total_free_time e + (fst (frames ! (n - 1)) - free_start_time e))\<rparr>"
      by (rule n)
    show "displayed_free_time now (snd (run_frames lib spaces tr cfg (take n frames) g)) i =
              Some (case free_time_tracking g i of
                      None \<Rightarrow> now - fst (frames ! 0)
                    | Some e \<Rightarrow> total_free_time e + (now - free_start_time e))"
      using n by (simp add: displayed_free_time_def split: option.splits)
    assume s: "sorted (map fst frames) \<and> 0 < m \<and> m \<le> n"
    then have "0 < m" "m \<le> length frames" using assms by simp_all
    note m = fre[OF a this]
    show "\<exists>e1 e2.
                  free_time_tracking (snd (run_frames lib spaces tr cfg (take m frames) g)) i
                    = Some e1 \<and>
                  free_time_tracking (snd (run_frames lib spaces tr cfg (take n frames) g)) i
                    = Some e2 \<and>
                  total_free_time e1 \<le> total_free_time e2"
      using m n mono[OF s] by (simp split: option.splits)
  qed
qed

theorem accrual_closed_form_witness:
  "occupied_time_tracking
     (snd (run_frames example_cv2 [square] [2, 67] default_settings
             (take 3 occupied_frames_example) initial_globals)) 0 =
     Some \<lparr>occupied_start_time = 103, total_occupied_time = 3\<rparr> \<and>
   displayed_occupied_time 110
     (snd (run_frames example_cv2 [square] [2, 67] default_settings
             (take 3 occupied_frames_example) initial_globals)) 0 = Some 10 \<and>
   (\<exists>e1 e2.
      occupied_time_tracking
        (snd (run_frames example_cv2 [square] [2, 67] default_settings
                (take 2 occupied_frames_example) initial_globals)) 0 = Some e1 \<and>
      occupied_time_tracking
        (snd (run_frames example_cv2 [square] [2, 67] default_settings
                (take 3 occupied_frames_example) initial_globals)) 0 = Some e2 \<and>
      total_occupied_time e1 \<le> total_occupied_time e2) \<and>
   free_time_tracking
     (snd (run_frames example_cv2 [square] [2, 67] default_settings
             (take 3 free_frames_example) initial_globals)) 0 =
     Some \<lparr>free_start_time = 103, total_free_time = 3\<rparr> \<and>
   displayed_free_time 110
     (snd (run_frames example_cv2 [square] [2, 67] default_settings
             (take 3 free_frames_example) initial_globals)) 0 = Some 10 \<and>
   (\<exists>e1 e2.
      free_time_tracking
        (snd (run_frames example_cv2 [square] [2, 67] default_settings
                (take 2 free_frames_example) initial_globals)) 0 = Some e1 \<and>
      free_time_tracking
        (snd (run_frames example_cv2 [square] [2, 67] default_settings
                (take 3 free_frames_example) initial_globals)) 0 = Some e2 \<and>
      total_free_time e1 \<le> total_free_time e2) \<and>
   occupied_time_tracking
     (snd (run_frames example_cv2 [square, new_slot] [2, 67] default_settings
             (take 3 new_slot_frames)
             (first_frame_done\<lparr>parking_spaces := [square, new_slot]\<rparr>))) 1 =
     Some \<lparr>occupied_start_time = 103, total_occupied_time = 60\<rparr> \<and>
   displayed_occupied_time 110
     (snd (run_frames example_cv2 [square, new_slot] [2, 67] default_settings
             (take 3 new_slot_frames)
             (first_frame_done\<lparr>parking_spaces := [square, new_slot]\<rparr>))) 1 = Some 67"
proof -
  have i: "0 < length [square]" "1 < length [square, new_slot]" by simp_all
  have n: "(0::nat) < 3" "3 \<le> length occupied_frames_example" "3 \<le> length free_frames_example"
    "3 \<le> length new_slot_frames"
    by (simp_all add: occupied_frames_example_def free_frames_example_def new_slot_frames_def)
  have none: "occupied_time_tracking initial_globals 0 = None"
    "free_time_tracking initial_globals 0 = None"
    by (simp_all add: initial_globals_def)
  have stale: "occupied_time_tracking
      (first_frame_done\<lparr>parking_spaces := [square, new_slot]\<rparr>) 1 =
      Some \<lparr>occupied_start_time = 43, total_occupied_time = 0\<rparr>"
    using first_frame_done_fields by simp
  have so: "sorted (map fst occupied_frames_example)" "sorted (map fst free_frames_example)"
    by (simp_all add: occupied_frames_example_def free_frames_example_def)
  have nth: "fst (occupied_frames_example ! (3 - 1)) = 103" "fst (occupied_frames_example ! 0) = 100"
    "fst (free_frames_example ! (3 - 1)) = 103" "fst (free_frames_example ! 0) = 100"
    "fst (new_slot_frames ! (3 - 1)) = 103"
    by (simp_all add: occupied_frames_example_def free_frames_example_def new_slot_frames_def)
  have all: "\<forall>sts \<in> set (fst (run_frames example_cv2 [square, new_slot] [2, 67]
      default_settings new_slot_frames
      (first_frame_done\<lparr>parking_spaces := [square, new_slot]\<rparr>))). sts ! 1 = Occupied"
    using new_slot_frames_states by simp
  from accrual_closed_form[OF i(1) n(1,2), where g = initial_globals and lib = example_cv2
      and tr = "[2, 67]" and cfg = default_settings and now = 110 and m = 2]
    accrual_closed_form[OF i(1) n(1,3), where g = initial_globals and lib = example_cv2
      and tr = "[2, 67]" and cfg = default_settings and now = 110 and m = 2]
    accrual_closed_form[OF i(2) n(1,4),
      where g = "first_frame_done\<lparr>parking_spaces := [square, new_slot]\<rparr>"
      and lib = example_cv2 and tr = "[2, 67]" and cfg = default_settings and now = 110
      and m = 2]
    none stale so nth all occupied_frames_example_states free_frames_example_states
  show ?thesis by auto
qed

text \<open>
  The claim as stated fails for a slot that takes an index another slot has left: the
  dictionaries are keyed by index and no path removes a record when a slot is deleted.
  Two slots are found occupied at clock reading 43; the second is deleted (delete mode is
  switched on for the click and off again); later four clicks create a new slot, which
  takes index 1, and the frames at 100, 101 and 103 find it occupied. At 110 the displayed
  duration of the new slot is 67 seconds, the age of the record it found, where the claim
  gives the 10 seconds since the slot entered the state.
\<close>

theorem accrual_stale_record:
  "occupied_time_tracking first_frame_done 1 =
     Some \<lparr>occupied_start_time = 43, total_occupied_time = 0\<rparr> \<and>
   draw_parking_space EVENT_LBUTTONDOWN 25 5 [] (first_frame_done\<lparr>delete_mode := True\<rparr>) =
     Inr (first_frame_done\<lparr>delete_mode := True, parking_spaces := [square]\<rparr>) \<and>
   draw_events [(EVENT_LBUTTONDOWN, 40, 0), (EVENT_LBUTTONDOWN, 50, 0),
                (EVENT_LBUTTONDOWN, 50, 10), (EVENT_LBUTTONDOWN, 40, 10)] []
     (first_frame_done\<lparr>parking_spaces := [square]\<rparr>) =
     Inr (first_frame_done\<lparr>parking_spaces := [square, new_slot]\<rparr>) \<and>
   map (\<lambda>sts. sts ! 1)
     (fst (run_frames example_cv2 [square, new_slot] [2, 67] default_settings new_slot_frames
             (first_frame_done\<lparr>parking_spaces := [square, new_slot]\<rparr>))) =
     [Occupied, Occupied, Occupied] \<and>
   fst (new_slot_frames ! 0) = 100 \<and>
   displayed_occupied_time 110
     (snd (run_frames example_cv2 [square, new_slot] [2, 67] default_settings new_slot_frames
             (first_frame_done\<lparr>parking_spaces := [square, new_slot]\<rparr>))) 1 = Some 67"
proof -
  let ?g = "first_frame_done\<lparr>parking_spaces := [square, new_slot]\<rparr>"
  let ?r = "run_frames example_cv2 [square, new_slot] [2, 67] default_settings new_slot_frames ?g"
  have hit: "\<not> space_hit (25, 5) square" "space_hit (25, 5) [(20, 0), (30, 0), (30, 10), (20, 10)]"
    using space_hit_examples by (simp_all add: square_def)
  have del: "draw_parking_space EVENT_LBUTTONDOWN 25 5 [] (first_frame_done\<lparr>delete_mode := True\<rparr>) =
     Inr (first_frame_done\<lparr>delete_mode := True, parking_spaces := [square]\<rparr>)"
    using first_frame_done_fields hit
    by (simp add: draw_parking_space_def two_slots_def del_at_def)
  have cre: "draw_events [(EVENT_LBUTTONDOWN, 40, 0), (EVENT_LBUTTONDOWN, 50, 0),
                (EVENT_LBUTTONDOWN, 50, 10), (EVENT_LBUTTONDOWN, 40, 10)] []
     (first_frame_done\<lparr>parking_spaces := [square]\<rparr>) =
     Inr (first_frame_done\<lparr>parking_spaces := [square, new_slot]\<rparr>)"
    using first_frame_done_fields
    by (simp add: draw_parking_space_def append_click_def Let_def new_slot_def)
  have p: "?r = (fst ?r, snd ?r)" by simp
  have i: "1 < length [square, new_slot]" by simp
  have sts: "fst ?r = [ [Free, Occupied], [Free, Occupied], [Free, Occupied] ]"
    using new_slot_overlaps
    by (simp add: new_slot_frames_def check_parking_spaces_def classify_space_def
          default_settings_def)
  have all: "\<forall>sts \<in> set (fst ?r). sts ! 1 = Occupied" using sts by simp
  have ne: "new_slot_frames \<noteq> []" by (simp add: new_slot_frames_def)
  have o: "occupied_time_tracking ?g 1 = Some \<lparr>occupied_start_time = 43, total_occupied_time = 0\<rparr>"
    using first_frame_done_fields by simp
  from occupied_frames_from[OF i ne o all]
  have "displayed_occupied_time 110 (snd ?r) 1 = Some 67"
    by (simp add: displayed_occupied_time_def new_slot_frames_def)
  then show ?thesis
    using first_frame_done_fields(6) del cre sts by (simp add: new_slot_frames_def)
qed

subsection \<open>Region editor\<close>

text \<open>
  Claim C8. In create (normal) mode, where no mode flag is set, a click while fewer than
  four points are pending appends the clicked point to the pending sequence; the click
  that makes it four points appends that sequence as one new slot at the end of the slot
  list and empties the pending sequence. So four clicks from an empty pending sequence
  create exactly one slot holding the four points in click order, and a fifth click
  starts a new pending sequence. A click in this mode leaves fewer than four points
  pending again, and every change of mode empties the pending sequence, so the bound on
  the pending sequence holds whenever create mode is active.
\<close>

theorem create_mode_click:
  assumes "\<not> debug_mode g" "\<not> delete_mode g" "\<not> edit_mode g"
  shows "(length (current_parking_space g) < 4 \<longrightarrow>
            draw_parking_space EVENT_LBUTTONDOWN x y dets g =
              Inr (if length (current_parking_space g) = 3
                   then g\<lparr>parking_spaces :=
                            parking_spaces g @ [current_parking_space g @ [(x, y)] ],
                          current_parking_space := []\<rparr>
                   else g\<lparr>current_parking_space := current_parking_space g @ [(x, y)]\<rparr>) \<and>
            (\<forall>g'. draw_parking_space EVENT_LBUTTONDOWN x y dets g = Inr g' \<longrightarrow>
                 length (current_parking_space g') < 4)) \<and>
         (current_parking_space g = [] \<longrightarrow>
            draw_events [(EVENT_LBUTTONDOWN, p1), (EVENT_LBUTTONDOWN, p2),
                         (EVENT_LBUTTONDOWN, p3), (EVENT_LBUTTONDOWN, p4)] dets g =
              Inr (g\<lparr>parking_spaces := parking_spaces g @ [ [p1, p2, p3, p4] ],
                     current_parking_space := []\<rparr>) \<and>
            draw_events [(EVENT_LBUTTONDOWN, p1), (EVENT_LBUTTONDOWN, p2),
                         (EVENT_LBUTTONDOWN, p3), (EVENT_LBUTTONDOWN, p4),
                         (EVENT_LBUTTONDOWN, p5)] dets g =
              Inr (g\<lparr>parking_spaces := parking_spaces g @ [ [p1, p2, p3, p4] ],
                     current_parking_space := [p5]\<rparr>))"
proof (intro conjI impI)
  assume l: "length (current_parking_space g) < 4"
  then show r: "draw_parking_space EVENT_LBUTTONDOWN x y dets g =
              Inr (if length (current_parking_space g) = 3
                   then g\<lparr>parking_spaces :=
                            parking_spaces g @ [current_parking_space g @ [(x, y)] ],
                          current_parking_space := []\<rparr>
                   else g\<lparr>current_parking_space := current_parking_space g @ [(x, y)]\<rparr>)"
    using assms by (simp add: draw_parking_space_def append_click_def Let_def)
  show "\<forall>g'. draw_parking_space EVENT_LBUTTONDOWN x y dets g = Inr g' \<longrightarrow>
                 length (current_parking_space g') < 4"
    using r l by auto
next
  assume e: "current_parking_space g = []"
  obtain x1 y1 x2 y2 x3 y3 x4 y4 where p: "p1 = (x1, y1)" "p2 = (x2, y2)" "p3 = (x3, y3)" "p4 = (x4, y4)"
    by (cases p1, cases p2, cases p3, cases p4) auto
  show "draw_events [(EVENT_LBUTTONDOWN, p1), (EVENT_LBUTTONDOWN, p2),
                         (EVENT_LBUTTONDOWN, p3), (EVENT_LBUTTONDOWN, p4)] dets g =
              Inr (g\<lparr>parking_spaces := parking_spaces g @ [ [p1, p2, p3, p4] ],
                     current_parking_space := []\<rparr>)"
    using assms e p by (simp add: draw_parking_space_def append_click_def Let_def)
  obtain x5 y5 where p5: "p5 = (x5, y5)" by (cases p5)
  show "draw_events [(EVENT_LBUTTONDOWN, p1), (EVENT_LBUTTONDOWN, p2),
                         (EVENT_LBUTTONDOWN, p3), (EVENT_LBUTTONDOWN, p4),
                         (EVENT_LBUTTONDOWN, p5)] dets g =
              Inr (g\<lparr>parking_spaces := parking_spaces g @ [ [p1, p2, p3, p4] ],
                     current_parking_space := [p5]\<rparr>)"
    using assms e p p5 by (simp add: draw_parking_space_def append_click_def Let_def)
qed

theorem create_mode_click_witness:
  "draw_events [(EVENT_LBUTTONDOWN, 1, 2), (EVENT_LBUTTONDOWN, 30, 4),
                (EVENT_LBUTTONDOWN, 33, 40), (EVENT_LBUTTONDOWN, 2, 41),
                (EVENT_LBUTTONDOWN, 50, 50)] [] initial_globals =
     Inr (initial_globals\<lparr>parking_spaces := [ [(1, 2), (30, 4), (33, 40), (2, 41)] ],
                          current_parking_space := [(50, 50)]\<rparr>) \<and>
   draw_parking_space EVENT_LBUTTONDOWN 7 8 [] initial_globals =
     Inr (initial_globals\<lparr>current_parking_space := [(7, 8)]\<rparr>)"
proof -
  have m: "\<not> debug_mode initial_globals" "\<not> delete_mode initial_globals"
    "\<not> edit_mode initial_globals"
    by (simp_all add: initial_globals_def)
  have c: "current_parking_space initial_globals = []" "parking_spaces initial_globals = []"
    by (simp_all add: initial_globals_def)
  show ?thesis
    using create_mode_click[OF m, of 7 8 "[]" "(1, 2)" "(30, 4)" "(33, 40)" "(2, 41)" "(50, 50)"] c
    by simp
qed

text \<open>
  Claim C3 (the code diverges). The first click in edit mode selects the first slot hit,
  but it also copies the slot's four points into the pending sequence, so the pending
  sequence is already full: the next click appends nothing, writes the unchanged copy
  back and clears the selection. With one slot \<open>square\<close>, selecting it at (5, 5) and then
  clicking (20, 20), (30, 20), (30, 30), (20, 30) leaves the slot list as it was, where
  the claim has the slot replaced by those four points. Lemma \<open>edit_mode_second_click\<close>
  shows the same for every selected four-point slot and every click.
\<close>

theorem edit_mode_replacement_lost:
  "draw_parking_space EVENT_LBUTTONDOWN 5 5 [] edit_start =
     Inr (edit_start\<lparr>editing_space_index := 0, current_parking_space := square\<rparr>) \<and>
   draw_events [(EVENT_LBUTTONDOWN, 5, 5), (EVENT_LBUTTONDOWN, 20, 20)] [] edit_start =
     Inr edit_start \<and>
   draw_events [(EVENT_LBUTTONDOWN, 5, 5), (EVENT_LBUTTONDOWN, 20, 20),
                (EVENT_LBUTTONDOWN, 30, 20), (EVENT_LBUTTONDOWN, 30, 30),
                (EVENT_LBUTTONDOWN, 20, 30)] [] edit_start =
     Inr edit_start \<and>
   parking_spaces edit_start = [ [(0, 0), (10, 0), (10, 10), (0, 10)] ]"
  by (simp add: edit_start_def initial_globals_def square_def draw_parking_space_def
        space_hit_def point_in_polygon_def edge_crossed_def append_click_def py_setitem_def
        Let_def)

text \<open>
  Claim C9. In delete mode a click removes exactly the first slot in list order that the
  click hits (the source's test: the slot has four points and \<open>point_in_polygon\<close> holds);
  the slots before it keep their indices, the slots after it move down by one, and a
  click that hits no slot changes nothing. Deleting index 1 of a three-slot list leaves
  the former slot 0 at index 0 and the former slot 2 at index 1.
\<close>

theorem delete_mode_click:
  assumes "\<not> debug_mode g" "delete_mode g"
  shows "((\<forall>s \<in> set (parking_spaces g). \<not> space_hit (x, y) s) \<longrightarrow>
            draw_parking_space EVENT_LBUTTONDOWN x y dets g = Inr g) \<and>
         (i < length (parking_spaces g) \<and> space_hit (x, y) (parking_spaces g ! i) \<and>
          (\<forall>j<i. \<not> space_hit (x, y) (parking_spaces g ! j)) \<longrightarrow>
            (\<exists>spaces'.
               draw_parking_space EVENT_LBUTTONDOWN x y dets g =
                 Inr (g\<lparr>parking_spaces := spaces'\<rparr>) \<and>
               spaces' = take i (parking_spaces g) @ drop (Suc i) (parking_spaces g) \<and>
               length spaces' = length (parking_spaces g) - 1 \<and>
               (\<forall>j<i. spaces' ! j = parking_spaces g ! j) \<and>
               (\<forall>j. i \<le> j \<and> Suc j < length (parking_spaces g) \<longrightarrow>
                    spaces' ! j = parking_spaces g ! Suc j))) \<and>
         (parking_spaces g = [s0, s1, s2] \<and> \<not> space_hit (x, y) s0 \<and> space_hit (x, y) s1 \<longrightarrow>
            draw_parking_space EVENT_LBUTTONDOWN x y dets g =
              Inr (g\<lparr>parking_spaces := [s0, s2]\<rparr>))"
proof (intro conjI impI)
  assume "\<forall>s \<in> set (parking_spaces g). \<not> space_hit (x, y) s"
  then show "draw_parking_space EVENT_LBUTTONDOWN x y dets g = Inr g"
    using assms first_hit_none[of "parking_spaces g" "(x, y)" 0]
    by (simp add: draw_parking_space_def)
next
  assume h: "i < length (parking_spaces g) \<and> space_hit (x, y) (parking_spaces g ! i) \<and>
          (\<forall>j<i. \<not> space_hit (x, y) (parking_spaces g ! j))"
  then have f: "first_hit (x, y) 0 (parking_spaces g) = Some i"
    using first_hit_least[of i "parking_spaces g" "(x, y)" 0] by simp
  have d: "draw_parking_space EVENT_LBUTTONDOWN x y dets g =
             Inr (g\<lparr>parking_spaces := del_at i (parking_spaces g)\<rparr>)"
    using assms f by (simp add: draw_parking_space_def)
  show "\<exists>spaces'.
               draw_parking_space EVENT_LBUTTONDOWN x y dets g =
                 Inr (g\<lparr>parking_spaces := spaces'\<rparr>) \<and>
               spaces' = take i (parking_spaces g) @ drop (Suc i) (parking_spaces g) \<and>
               length spaces' = length (parking_spaces g) - 1 \<and>
               (\<forall>j<i. spaces' ! j = parking_spaces g ! j) \<and>
               (\<forall>j. i \<le> j \<and> Suc j < length (parking_spaces g) \<longrightarrow>
                    spaces' ! j = parking_spaces g ! Suc j)"
    using d del_at_nth[of i "parking_spaces g"] h
    by (intro exI[of _ "del_at i (parking_spaces g)"]) (simp add: del_at_def)
next
  assume h: "parking_spaces g = [s0, s1, s2] \<and> \<not> space_hit (x, y) s0 \<and> space_hit (x, y) s1"
  then show "draw_parking_space EVENT_LBUTTONDOWN x y dets g =
              Inr (g\<lparr>parking_spaces := [s0, s2]\<rparr>)"
    using assms by (simp add: draw_parking_space_def del_at_def)
qed

theorem delete_mode_click_witness:
  "draw_parking_space EVENT_LBUTTONDOWN 25 5 []
     (initial_globals\<lparr>delete_mode := True, parking_spaces := three_slots\<rparr>) =
   Inr (initial_globals\<lparr>delete_mode := True,
          parking_spaces := [ [(0, 0), (10, 0), (10, 10), (0, 10)],
                             [(40, 0), (50, 0), (50, 10), (40, 10)] ]\<rparr>) \<and>
   draw_parking_space EVENT_LBUTTONDOWN 25 5 []
     (initial_globals\<lparr>delete_mode := True,
        parking_spaces := [ [(0, 0), (10, 0), (10, 10), (0, 10)] ]\<rparr>) =
   Inr (initial_globals\<lparr>delete_mode := True,
        parking_spaces := [ [(0, 0), (10, 0), (10, 10), (0, 10)] ]\<rparr>)"
proof -
  let ?g = "initial_globals\<lparr>delete_mode := True, parking_spaces := three_slots\<rparr>"
  let ?h = "initial_globals\<lparr>delete_mode := True,
        parking_spaces := [ [(0, 0), (10, 0), (10, 10), (0, 10)] ]\<rparr>"
  have m: "\<not> debug_mode ?g" "delete_mode ?g" "\<not> debug_mode ?h" "delete_mode ?h"
    by (simp_all add: initial_globals_def)
  have a: "parking_spaces ?g = [ [(0, 0), (10, 0), (10, 10), (0, 10)],
      [(20, 0), (30, 0), (30, 10), (20, 10)],
      [(40, 0), (50, 0), (50, 10), (40, 10)] ]"
    by (simp add: three_slots_def)
  have b: "\<forall>s \<in> set (parking_spaces ?h). \<not> space_hit (25, 5) s"
    using space_hit_examples by simp
  from delete_mode_click[OF m(1,2), of 25 5 "[]" 1
      "[(0, 0), (10, 0), (10, 10), (0, 10)]" "[(20, 0), (30, 0), (30, 10), (20, 10)]"
      "[(40, 0), (50, 0), (50, 10), (40, 10)]"] a space_hit_examples
  have one: "draw_parking_space EVENT_LBUTTONDOWN 25 5 [] ?g =
      Inr (?g\<lparr>parking_spaces := [ [(0, 0), (10, 0), (10, 10), (0, 10)],
                             [(40, 0), (50, 0), (50, 10), (40, 10)] ]\<rparr>)"
    by simp
  from delete_mode_click[OF m(3,4), of 25 5 "[]"] b
  have two: "draw_parking_space EVENT_LBUTTONDOWN 25 5 [] ?h = Inr ?h"
    by simp
  have i: "1 < length (parking_spaces ?g)" "\<forall>j<1. \<not> space_hit (25, 5) (parking_spaces ?g ! j)"
    "space_hit (25, 5) (parking_spaces ?g ! 1)"
    using space_hit_examples by (simp_all add: three_slots_def)
  from delete_mode_click[OF m(1,2), of 25 5 "[]" 1] i
  have three: "draw_parking_space EVENT_LBUTTONDOWN 25 5 [] ?g =
      Inr (?g\<lparr>parking_spaces := take 1 (parking_spaces ?g) @ drop (Suc 1) (parking_spaces ?g)\<rparr>)"
    by blast
  show ?thesis using one two three by (simp add: three_slots_def)
qed

text \<open>
  Claim C10. A mouse event in delete mode never raises, changes nothing of the state but
  the slot list, and so leaves the four index-keyed dictionaries (\<open>uncertainty_tracking\<close>, \<open>free_time_tracking\<close>,
  \<open>occupied_time_tracking\<close>, \<open>detection_history\<close>) exactly as they were. After the
  deletion of slot \<open>i\<close>, every index \<open>j \<ge> i\<close> holds the slot that was at \<open>j + 1\<close>
  together with the records that were keyed to \<open>j\<close>; the next classification frame
  continues from them: if it classifies the slot now at index \<open>k\<close> as occupied, the
  occupied-time record found at \<open>k\<close> is accrued, not restarted.
\<close>

theorem delete_keeps_tracking:
  assumes "\<not> debug_mode g" "delete_mode g"
  shows "(\<exists>g1. draw_parking_space ev x y dets g = Inr g1) \<and>
         (draw_parking_space ev x y dets g = Inr g' \<longrightarrow>
            g' = g\<lparr>parking_spaces := parking_spaces g'\<rparr> \<and>
            uncertainty_tracking g' = uncertainty_tracking g \<and>
            free_time_tracking g' = free_time_tracking g \<and>
            occupied_time_tracking g' = occupied_time_tracking g \<and>
            detection_history g' = detection_history g \<and>
            (ev = EVENT_LBUTTONDOWN \<and> first_hit (x, y) 0 (parking_spaces g) = Some i \<and>
             i \<le> j \<and> Suc j < length (parking_spaces g) \<longrightarrow>
               parking_spaces g' ! j = parking_spaces g ! Suc j \<and>
               uncertainty_tracking g' j = uncertainty_tracking g j \<and>
               free_time_tracking g' j = free_time_tracking g j \<and>
               occupied_time_tracking g' j = occupied_time_tracking g j \<and>
               detection_history g' j = detection_history g j) \<and>
            (k < length (parking_spaces g') \<and> occupied_time_tracking g k = Some e \<and>
             fst (check_parking_spaces lib now (parking_spaces g') dets' tr cfg g') ! k = Occupied \<longrightarrow>
               occupied_time_tracking
                 (snd (check_parking_spaces lib now (parking_spaces g') dets' tr cfg g')) k =
                 Some \<lparr>occupied_start_time = now,
                       total_occupied_time =
                         total_occupied_time e + (now - occupied_start_time e)\<rparr>))"
proof (intro conjI impI)
  show "\<exists>g1. draw_parking_space ev x y dets g = Inr g1"
    using assms by (simp add: draw_parking_space_def split: option.splits)
next
  assume d: "draw_parking_space ev x y dets g = Inr g'"
  then have cases: "g' = g \<or> (\<exists>n. ev = EVENT_LBUTTONDOWN \<and>
       first_hit (x, y) 0 (parking_spaces g) = Some n \<and>
       g' = g\<lparr>parking_spaces := del_at n (parking_spaces g)\<rparr>)"
    using assms by (auto simp: draw_parking_space_def split: option.splits if_splits)
  then show "g' = g\<lparr>parking_spaces := parking_spaces g'\<rparr>" by auto
  from cases show u: "uncertainty_tracking g' = uncertainty_tracking g" by auto
  from cases show f: "free_time_tracking g' = free_time_tracking g" by auto
  from cases show o: "occupied_time_tracking g' = occupied_time_tracking g" by auto
  from cases show h: "detection_history g' = detection_history g" by auto
  {
    assume a: "ev = EVENT_LBUTTONDOWN \<and> first_hit (x, y) 0 (parking_spaces g) = Some i \<and>
             i \<le> j \<and> Suc j < length (parking_spaces g)"
    then have g': "g' = g\<lparr>parking_spaces := del_at i (parking_spaces g)\<rparr>"
      using d assms by (simp add: draw_parking_space_def)
    have "i < length (parking_spaces g)" using a by simp
    from del_at_nth[OF this] a g'
    show "parking_spaces g' ! j = parking_spaces g ! Suc j" by simp
    show "uncertainty_tracking g' j = uncertainty_tracking g j" using u by simp
    show "free_time_tracking g' j = free_time_tracking g j" using f by simp
    show "occupied_time_tracking g' j = occupied_time_tracking g j" using o by simp
    show "detection_history g' j = detection_history g j" using h by simp
  }
  {
    assume a: "k < length (parking_spaces g') \<and> occupied_time_tracking g k = Some e \<and>
             fst (check_parking_spaces lib now (parking_spaces g') dets' tr cfg g') ! k = Occupied"
    obtain sts g2 where c: "check_parking_spaces lib now (parking_spaces g') dets' tr cfg g' = (sts, g2)"
      by (cases "check_parking_spaces lib now (parking_spaces g') dets' tr cfg g'")
    obtain r cl where b: "space_overlap lib (universal_detection cfg) tr dets' (parking_spaces g' ! k) = (r, cl)"
      by (cases "space_overlap lib (universal_detection cfg) tr dets' (parking_spaces g' ! k)")
    have k: "k < length (parking_spaces g')" using a by simp
    have rec: "records_of g' k =
        (uncertainty_tracking g k, free_time_tracking g k, Some e, detection_history g k)"
      using a u f o h by (simp add: records_of_def)
    have "sts ! k = Occupied" using a c by simp
    then have "occupancy_threshold cfg \<le> r"
      using check_parking_spaces_records(2)[OF c k] b slot_step_Occupied_iff[of cfg now r cl]
      by simp
    from slot_step_occupied_record[OF this, of now cl _ _ e]
    have "records_of g2 k = (None, None,
        Some \<lparr>occupied_start_time = now,
              total_occupied_time = total_occupied_time e + (now - occupied_start_time e)\<rparr>,
        None)"
      using check_parking_spaces_records(3)[OF c k] b rec by simp
    then show "occupied_time_tracking
                 (snd (check_parking_spaces lib now (parking_spaces g') dets' tr cfg g')) k =
                 Some \<lparr>occupied_start_time = now,
                       total_occupied_time =
                         total_occupied_time e + (now - occupied_start_time e)\<rparr>"
      using c by (simp add: records_of_def)
  }
qed

theorem delete_keeps_tracking_witness:
  "draw_parking_space EVENT_LBUTTONDOWN 25 5 []
     (initial_globals\<lparr>delete_mode := True, parking_spaces := three_slots,
        occupied_time_tracking :=
          [1 \<mapsto> \<lparr>occupied_start_time = 100, total_occupied_time = 40\<rparr>]\<rparr>) =
     Inr after_delete \<and>
   occupied_time_tracking after_delete 1 =
     Some \<lparr>occupied_start_time = 100, total_occupied_time = 40\<rparr> \<and>
   parking_spaces after_delete ! 1 = [(40, 0), (50, 0), (50, 10), (40, 10)] \<and>
   occupied_time_tracking
     (snd (check_parking_spaces example_cv2 105 (parking_spaces after_delete)
             [(40, 0, 50, 10, 9/10, 2)] [2, 67] default_settings after_delete)) 1 =
     Some \<lparr>occupied_start_time = 105, total_occupied_time = 45\<rparr>"
proof -
  let ?g = "initial_globals\<lparr>delete_mode := True, parking_spaces := three_slots,
        occupied_time_tracking :=
          [1 \<mapsto> \<lparr>occupied_start_time = 100, total_occupied_time = 40\<rparr>]\<rparr>"
  have m: "\<not> debug_mode ?g" "delete_mode ?g"
    by (simp_all add: initial_globals_def)
  have d: "draw_parking_space EVENT_LBUTTONDOWN 25 5 [] ?g = Inr after_delete"
    using three_slots_click
    by (simp add: draw_parking_space_def initial_globals_def after_delete_def del_at_def
          three_slots_def)
  have f: "first_hit (25, 5) 0 (parking_spaces ?g) = Some 1"
    using three_slots_click by simp
  have o: "occupied_time_tracking ?g 1 =
      Some \<lparr>occupied_start_time = 100, total_occupied_time = 40\<rparr>"
    by simp
  have l: "Suc 1 < length (parking_spaces ?g)" "1 < length (parking_spaces after_delete)"
    by (simp_all add: three_slots_def after_delete_def)
  from delete_keeps_tracking[OF m, of EVENT_LBUTTONDOWN 25 5 "[]" after_delete 1 1 1
      "\<lparr>occupied_start_time = 100, total_occupied_time = 40\<rparr>" example_cv2 105
      "[(40, 0, 50, 10, 9/10, 2)]" "[2, 67]" default_settings] d f o l after_delete_frame
  show ?thesis by (simp add: three_slots_def)
qed

end
